theory Spec2Isabelle
  imports Main "HOL-Library.AList" "HOL-Library.Sublist"
begin

section \<open>Text primitives used by the generator\<close>

text \<open>
  Python \<open>str\<close> values are modelled as \<open>string\<close>; characters are the code points
  below 256. \<open>str(n)\<close> of an integer is its decimal numeral.
\<close>

fun digits :: "nat \<Rightarrow> string" where
  "digits n =
     (if n < 10 then [''0123456789'' ! n]
      else digits (n div 10) @ [''0123456789'' ! (n mod 10)])"

declare digits.simps [simp del]

definition str_int :: "int \<Rightarrow> string" where
  "str_int i = (if i < 0 then CHR ''-'' # digits (nat (- i)) else digits (nat i))"

text \<open>
  \<open>str(0.75 * line_weight)\<close> for an integer weight. Three quarters of an integer is a
  binary fraction, and a double below \<open>2^49\<close> is printed with all of its one or two
  decimals: the definition is Python's result for weights of magnitude up to
  \<open>7 * 10^14\<close>. Beyond that \<open>repr\<close> rounds the decimals away (and later switches to
  the exponent form), which is not modelled.
\<close>

definition str_three_quarters :: "int \<Rightarrow> string" where
  "str_three_quarters lw =
     (let q = 3 * lw; a = nat \<bar>q\<bar> in
      (if q < 0 then ''-'' else '''') @ digits (a div 4) @ ''.'' @
      [''0'', ''25'', ''5'', ''75''] ! (a mod 4))"

text \<open>\<open>needle in text\<close>: the substring test.\<close>

fun occurs :: "string \<Rightarrow> string \<Rightarrow> bool" where
  "occurs s [] = (s = [])"
| "occurs s (c # cs) = (prefix s (c # cs) \<or> occurs s cs)"

text \<open>
  \<open>text.replace(old, new)\<close>: leftmost non-overlapping occurrences, scanning from the
  left; an empty \<open>old\<close> matches before every character and at the end.
\<close>

function replace_nonempty :: "string \<Rightarrow> string \<Rightarrow> string \<Rightarrow> string" where
  "replace_nonempty old new [] = []"
| "replace_nonempty old new (c # cs) =
     (if old \<noteq> [] \<and> prefix old (c # cs)
      then new @ replace_nonempty old new (drop (length old) (c # cs))
      else c # replace_nonempty old new cs)"
  by pat_completeness auto
termination
  by (relation "measure (\<lambda>(old, new, s). length s)") (auto simp: neq_Nil_conv)

definition str_replace :: "string \<Rightarrow> string \<Rightarrow> string \<Rightarrow> string" where
  "str_replace old new s =
     (if old = [] then new @ concat (map (\<lambda>c. c # new) s)
      else replace_nonempty old new s)"

text \<open>\<open>str.removeprefix\<close> and \<open>str.removesuffix\<close>.\<close>

definition removeprefix :: "string \<Rightarrow> string \<Rightarrow> string" where
  "removeprefix p s = (if prefix p s then drop (length p) s else s)"

definition removesuffix :: "string \<Rightarrow> string \<Rightarrow> string" where
  "removesuffix x s =
     (if x \<noteq> [] \<and> suffix x s then take (length s - length x) s else s)"

subsection \<open>The two regular-expression substitutions\<close>

text \<open>
  \<open>\s\<close> of a Python \<open>str\<close> pattern, on the code points below 256: TAB, LF, VT, FF, CR,
  the separators 28 to 31, space, NEL (133) and the no-break space (160).
\<close>

definition is_space :: "char \<Rightarrow> bool" where
  "is_space c = (let n = (of_char c :: nat) in
     (9 \<le> n \<and> n \<le> 13) \<or> (28 \<le> n \<and> n \<le> 32) \<or> n = 133 \<or> n = 160)"

text \<open>
  Both patterns have the shape \<open>kw\s*:[^;]+;\<close>. \<open>match_decl kw s\<close> matches it at the
  start of \<open>s\<close> and returns the text up to and including the colon, the text matched
  by \<open>[^;]+\<close>, and what follows the semicolon. The pattern has one match at most at a
  position: \<open>\s*\<close> must stop at the colon, and \<open>[^;]+\<close> must run to the next semicolon.
\<close>

definition match_decl :: "string \<Rightarrow> string \<Rightarrow> (string \<times> string \<times> string) option" where
  "match_decl kw s =
     (if prefix kw s then
        (let s1 = drop (length kw) s;
             ws = takeWhile is_space s1;
             s2 = dropWhile is_space s1
         in case s2 of
              [] \<Rightarrow> None
            | c # s3 \<Rightarrow>
                if c = CHR '':'' then
                  (let v = takeWhile (\<lambda>x. x \<noteq> CHR '';'') s3;
                       s4 = dropWhile (\<lambda>x. x \<noteq> CHR '';'') s3
                   in if v \<noteq> [] \<and> s4 \<noteq> [] then Some (kw @ ws @ '':'', v, tl s4)
                      else None)
                else None)
      else None)"

text \<open>
  \<open>re.sub\<close> with such a pattern: scan from the left, replace a match by \<open>repl g v\<close>
  (\<open>g\<close> the text through the colon, \<open>v\<close> the value) and go on behind the semicolon.
\<close>

function sub_decl :: "string \<Rightarrow> (string \<Rightarrow> string \<Rightarrow> string) \<Rightarrow> string \<Rightarrow> string" where
  "sub_decl kw repl [] = []"
| "sub_decl kw repl (c # cs) =
     (case match_decl kw (c # cs) of
        Some (g, v, r) \<Rightarrow> repl g v @ sub_decl kw repl r
      | None \<Rightarrow> c # sub_decl kw repl cs)"
  by pat_completeness auto
termination
proof (relation "measure (\<lambda>(kw, repl, s). length s)")
  show "wf (measure (\<lambda>(kw, repl, s). length s))" by simp
next
  fix kw :: string and repl :: "string \<Rightarrow> string \<Rightarrow> string" and c cs x2 g y v r
  assume m: "match_decl kw (c # cs) = Some x2" and x2: "(g, y) = x2" and y: "(v, r) = y"
  define s1 where "s1 = drop (length kw) (c # cs)"
  define s2 where "s2 = dropWhile is_space s1"
  from m x2 y have m': "match_decl kw (c # cs) = Some (g, v, r)" by simp
  then obtain s3 where s2: "s2 = CHR '':'' # s3"
    and r: "r = tl (dropWhile (\<lambda>x. x \<noteq> CHR '';'') s3)"
    and ne: "dropWhile (\<lambda>x. x \<noteq> CHR '';'') s3 \<noteq> []"
    unfolding match_decl_def s1_def s2_def
    by (auto simp: Let_def split: if_splits list.splits)
  have "length r < length (dropWhile (\<lambda>x. x \<noteq> CHR '';'') s3)"
    using r ne by (cases "dropWhile (\<lambda>x. x \<noteq> CHR '';'') s3") auto
  also have "\<dots> \<le> length s3" by (rule length_dropWhile_le)
  also have "\<dots> < length s2" using s2 by simp
  also have "\<dots> \<le> length s1" unfolding s2_def by (rule length_dropWhile_le)
  also have "\<dots> \<le> length (c # cs)" unfolding s1_def by simp
  finally show "((kw, repl, r), kw, repl, c # cs) \<in> measure (\<lambda>(kw, repl, s). length s)"
    by simp
next
  fix kw :: string and repl :: "string \<Rightarrow> string \<Rightarrow> string" and c :: char and cs :: string
  show "((kw, repl, cs), kw, repl, c # cs) \<in> measure (\<lambda>(kw, repl, s). length s)"
    by simp
qed

section \<open>Data model\<close>

text \<open>
  \<open>GeneratorEntry\<close>: one section of the configuration document, as the \<open>TypedDict\<close>
  declares it.
\<close>

record GeneratorEntry =
  name :: string
  comment :: string
  inherits :: string
  overwrite :: bool
  archive :: bool
  src_color :: string
  color :: string
  line_weight :: int
  src_paths :: "string list"

text \<open>\<open>MappingYaml\<close>: canonical name to destination list, in document order.\<close>

type_synonym MappingYaml = "(string \<times> string list) list"

text \<open>
  A parsed SVG document, as far as the generator looks into it: the \<open>r\<close> attribute of
  every \<open>circle\<close> element (\<open>None\<close> when the attribute is absent), the text of every
  \<open>style\<close> element in document order (\<open>None\<close> for an element without text), and the
  rest of the document, which the generator never touches.
\<close>

record svg =
  circles :: "string option list"
  styles :: "string option list"
  remainder :: string

section \<open>The style transformer (\<open>process_entry\<close>, lines 87 to 110)\<close>

text \<open>Lines 87 to 90: circles of radius \<open>0.75\<close> or \<open>.75\<close> get \<open>str(0.75 * line_weight)\<close>.\<close>

definition scale_dots :: "GeneratorEntry \<Rightarrow> svg \<Rightarrow> svg" where
  "scale_dots config doc =
     doc\<lparr>circles :=
       map (\<lambda>r. if r = Some ''0.75'' \<or> r = Some ''.75''
                then Some (str_three_quarters (line_weight config)) else r)
           (circles doc)\<rparr>"

text \<open>
  Lines 97 to 108 on the style text: with \<open>stroke-width\<close> in the text,
  \<open>(stroke-width\s*:)[^;]+;\<close> becomes group 1 followed by \<open><line_weight>px;\<close>;
  otherwise \<open>(stroke\s*:[^;]+;)\<close> becomes itself followed by
  \<open>stroke-width:<line_weight>px;\<close>.
\<close>

definition set_stroke_width :: "int \<Rightarrow> string \<Rightarrow> string" where
  "set_stroke_width lw text =
     (if occurs ''stroke-width'' text
      then sub_decl ''stroke-width'' (\<lambda>g v. g @ str_int lw @ ''px;'') text
      else sub_decl ''stroke''
             (\<lambda>g v. g @ v @ '';'' @ ''stroke-width:'' @ str_int lw @ ''px;'') text)"

text \<open>
  \<open>style_tag\<close> is the first \<open>style\<close> element; the steps below assign its text and
  leave the document alone when there is none to assign to.
\<close>

definition stroke_width_step :: "GeneratorEntry \<Rightarrow> svg \<Rightarrow> svg" where
  "stroke_width_step config doc =
     (case styles doc of
        Some text # others \<Rightarrow>
          doc\<lparr>styles := Some (set_stroke_width (line_weight config) text) # others\<rparr>
      | _ \<Rightarrow> doc)"

text \<open>Line 110: \<open>style_tag.text.replace(config["src_color"], config["color"])\<close>.\<close>

definition recolor :: "GeneratorEntry \<Rightarrow> svg \<Rightarrow> svg" where
  "recolor config doc =
     (case styles doc of
        Some text # others \<Rightarrow>
          doc\<lparr>styles := Some (str_replace (src_color config) (color config) text) # others\<rparr>
      | _ \<Rightarrow> doc)"

text \<open>
  Lines 87 to 110 together; \<open>None\<close> is the return at line 95 (no style element, or
  one without text), taken after the circles were changed in memory only.
\<close>

definition transform :: "GeneratorEntry \<Rightarrow> svg \<Rightarrow> svg option" where
  "transform config doc =
     (let doc1 = scale_dots config doc in
      case styles doc1 of
        [] \<Rightarrow> None
      | None # _ \<Rightarrow> None
      | Some _ # _ \<Rightarrow> Some (recolor config (stroke_width_step config doc1)))"

section \<open>Paths and the filesystem\<close>

text \<open>
  A path is the list of its components, relative to the working directory (the empty
  list). \<open>parts\<close> is what \<open>pathlib\<close> makes of a relative path string: split at the
  slashes, empty components and \<open>.\<close> dropped. Destinations are relative paths, as the
  mapping document has them. The filesystem is a table from paths to nodes, and a
  path is looked up as it is written: a link is followed where it is the last
  component, and a directory is not reached through a link to it. The generator builds
  its paths from the destination directory, \<open>scalable\<close> or \<open>symbolic\<close>, and a mapping
  destination, so it never addresses a file in another way.
\<close>

type_synonym path = "string list"

fun split_slash :: "string \<Rightarrow> string list" where
  "split_slash [] = [[]]"
| "split_slash (c # cs) =
     (if c = CHR ''/'' then [] # split_slash cs
      else (case split_slash cs of
              [] \<Rightarrow> [[c]]
            | x # xs \<Rightarrow> (c # x) # xs))"

definition parts :: "string \<Rightarrow> path" where
  "parts s = filter (\<lambda>x. x \<noteq> [] \<and> x \<noteq> ''.'') (split_slash s)"

text \<open>\<open>str(path) + suffix\<close> as a path again: the suffix goes onto the last component.\<close>

definition with_suffix :: "path \<Rightarrow> string \<Rightarrow> path" where
  "with_suffix p sfx = (if p = [] then parts (''.'' @ sfx) else butlast p @ [last p @ sfx])"

text \<open>
  File contents are kept parsed: an SVG document (what \<open>etree.parse\<close> returns and
  \<open>write\<close> serialises), an INI document (sections in order, each with its options in
  order), or any other bytes.
\<close>

datatype content =
    Svg svg
  | Ini "(string \<times> (string \<times> string) list) list"
  | Blob string

datatype node = File content | Link path | Dir

type_synonym filesystem = "(path \<times> node) list"

text \<open>The working directory always is a directory.\<close>

definition node_at :: "filesystem \<Rightarrow> path \<Rightarrow> node option" where
  "node_at t p = (if p = [] then Some Dir else map_of t p)"

text \<open>
  A link holds a path relative to its own directory; \<open>..\<close> components are resolved
  lexically.
\<close>

definition resolve_link :: "path \<Rightarrow> path \<Rightarrow> path" where
  "resolve_link p target =
     foldl (\<lambda>acc c. if c = ''..'' then butlast acc else acc @ [c]) [] (butlast p @ target)"

text \<open>Following the links at a path, 40 at most (\<open>ELOOP\<close> beyond, here \<open>None\<close>).\<close>

fun follow :: "nat \<Rightarrow> filesystem \<Rightarrow> path \<Rightarrow> path option" where
  "follow 0 t p = (case node_at t p of Some (Link tg) \<Rightarrow> None | _ \<Rightarrow> Some p)"
| "follow (Suc n) t p =
     (case node_at t p of
        Some (Link tg) \<Rightarrow> follow n t (resolve_link p tg)
      | _ \<Rightarrow> Some p)"

datatype stat = Absent | Looping | Directory | Regular content

definition stat_of :: "filesystem \<Rightarrow> path \<Rightarrow> stat" where
  "stat_of t p =
     (case follow 40 t p of
        None \<Rightarrow> Looping
      | Some q \<Rightarrow>
          (case node_at t q of
             None \<Rightarrow> Absent
           | Some Dir \<Rightarrow> Directory
           | Some (File c) \<Rightarrow> Regular c
           | Some (Link tg) \<Rightarrow> Looping))"

text \<open>\<open>Path.exists()\<close> and \<open>Path.is_dir()\<close> follow links and answer \<open>False\<close> on any error.\<close>

definition exists :: "filesystem \<Rightarrow> path \<Rightarrow> bool" where
  "exists t p = (case stat_of t p of Directory \<Rightarrow> True | Regular c \<Rightarrow> True | _ \<Rightarrow> False)"

definition is_dir :: "filesystem \<Rightarrow> path \<Rightarrow> bool" where
  "is_dir t p = (stat_of t p = Directory)"

text \<open>
  The state of a run: the filesystem, a journal of the changes made to it, and the
  module's global \<open>failed_symlinks\<close>.
\<close>

datatype event = Mkdir path | Write path | Unlink path | Symlink path | Rmtree path

record world =
  fs :: filesystem
  journal :: "event list"
  failed_symlinks :: "path list"

datatype error =
    FileNotFoundError | FileExistsError | NotADirectoryError | IsADirectoryError
  | TooManyLinks | OSError | ValueError | XMLSyntaxError | ParsingError | KeyError
  | IndexError

definition put :: "path \<Rightarrow> node \<Rightarrow> event \<Rightarrow> world \<Rightarrow> world" where
  "put p n ev w = w\<lparr>fs := AList.update p n (fs w), journal := journal w @ [ev]\<rparr>"

text \<open>
  \<open>Path.mkdir(parents=True, exist_ok=True)\<close>: an existing directory is left alone,
  anything else at the path is \<open>FileExistsError\<close>; a missing parent is made first.
\<close>

function mkdir :: "path \<Rightarrow> world \<Rightarrow> error + world" where
  "mkdir p w =
     (if node_at (fs w) p \<noteq> None then
        (if is_dir (fs w) p then Inr w else Inl FileExistsError)
      else
        (case stat_of (fs w) (butlast p) of
           Directory \<Rightarrow> Inr (put p Dir (Mkdir p) w)
         | Regular c \<Rightarrow> Inl NotADirectoryError
         | Looping \<Rightarrow> Inl TooManyLinks
         | Absent \<Rightarrow>
             (case mkdir (butlast p) w of
                Inl e \<Rightarrow> Inl e
              | Inr w1 \<Rightarrow> Inr (put p Dir (Mkdir p) w1))))"
  by pat_completeness auto
termination
proof (relation "measure (\<lambda>(p, w). length p)")
  show "wf (measure (\<lambda>(p, w). length p))" by simp
next
  fix p :: path and w :: world
  assume "\<not> node_at (fs w) p \<noteq> None"
  then have "p \<noteq> []" by (auto simp: node_at_def)
  then show "((butlast p, w), p, w) \<in> measure (\<lambda>(p, w). length p)" by simp
qed

declare mkdir.simps [simp del]

text \<open>\<open>open(p, "w")\<close> and the write: through links; the directory of the file must exist.\<close>

definition write_file :: "path \<Rightarrow> content \<Rightarrow> world \<Rightarrow> error + world" where
  "write_file p c w =
     (case follow 40 (fs w) p of
        None \<Rightarrow> Inl TooManyLinks
      | Some q \<Rightarrow>
          (case node_at (fs w) q of
             Some Dir \<Rightarrow> Inl IsADirectoryError
           | Some (Link tg) \<Rightarrow> Inl TooManyLinks
           | Some (File old) \<Rightarrow> Inr (put q (File c) (Write p) w)
           | None \<Rightarrow>
               (case stat_of (fs w) (butlast q) of
                  Directory \<Rightarrow> Inr (put q (File c) (Write p) w)
                | Regular d \<Rightarrow> Inl NotADirectoryError
                | Looping \<Rightarrow> Inl TooManyLinks
                | Absent \<Rightarrow> Inl FileNotFoundError)))"

text \<open>Opening an existing file for reading (\<open>open("r+")\<close>, \<open>etree.parse\<close>).\<close>

definition read_file :: "path \<Rightarrow> filesystem \<Rightarrow> error + content" where
  "read_file p t =
     (case stat_of t p of
        Regular c \<Rightarrow> Inr c
      | Directory \<Rightarrow> Inl IsADirectoryError
      | Looping \<Rightarrow> Inl TooManyLinks
      | Absent \<Rightarrow> Inl FileNotFoundError)"

text \<open>\<open>Path.unlink\<close>: removes a file or a link, not what a link points to.\<close>

definition unlink :: "bool \<Rightarrow> path \<Rightarrow> world \<Rightarrow> error + world" where
  "unlink missing_ok p w =
     (case node_at (fs w) p of
        None \<Rightarrow> if missing_ok then Inr w else Inl FileNotFoundError
      | Some Dir \<Rightarrow> Inl IsADirectoryError
      | Some n \<Rightarrow> Inr (w\<lparr>fs := AList.delete p (fs w), journal := journal w @ [Unlink p]\<rparr>))"

text \<open>\<open>os.symlink(target, p)\<close>: refuses a path that is taken, whatever is there.\<close>

definition symlink :: "path \<Rightarrow> path \<Rightarrow> world \<Rightarrow> error + world" where
  "symlink target p w =
     (if node_at (fs w) p \<noteq> None then Inl FileExistsError
      else
        (case stat_of (fs w) (butlast p) of
           Directory \<Rightarrow> Inr (put p (Link target) (Symlink p) w)
         | Regular c \<Rightarrow> Inl NotADirectoryError
         | Looping \<Rightarrow> Inl TooManyLinks
         | Absent \<Rightarrow> Inl FileNotFoundError))"

text \<open>
  \<open>self.relative_to(other, walk_up=True)\<close>: one \<open>..\<close> for each component of \<open>other\<close>
  behind the common prefix, none of which may itself be \<open>..\<close>, then the rest of
  \<open>self\<close>.
\<close>

fun common_prefix :: "path \<Rightarrow> path \<Rightarrow> nat" where
  "common_prefix (x # xs) (y # ys) = (if x = y then Suc (common_prefix xs ys) else 0)"
| "common_prefix xs ys = 0"

definition relative_to :: "path \<Rightarrow> path \<Rightarrow> error + path" where
  "relative_to self other =
     (let k = common_prefix self other; up = drop k other
      in if ''..'' \<in> set up then Inl ValueError
         else Inr (replicate (length up) ''..'' @ drop k self))"

text \<open>\<open>shutil.rmtree\<close>: the path must be a directory and not a link.\<close>

definition rmtree :: "path \<Rightarrow> world \<Rightarrow> error + world" where
  "rmtree p w =
     (case node_at (fs w) p of
        None \<Rightarrow> Inl FileNotFoundError
      | Some (File c) \<Rightarrow> Inl NotADirectoryError
      | Some (Link tg) \<Rightarrow> Inl OSError
      | Some Dir \<Rightarrow>
          if p = [] then Inl OSError
          else Inr (w\<lparr>fs := filter (\<lambda>(q, n). \<not> prefix p q) (fs w),
                      journal := journal w @ [Rmtree p]\<rparr>))"

text \<open>
  \<open>root.glob(pattern)\<close> for a pattern of literal characters, \<open>*\<close> and \<open>?\<close>: the
  entries below \<open>root\<close> whose components match the pattern's, one by one, in the
  order of the table. Character classes and \<open>**\<close> in a destination name are not
  modelled.
\<close>

function wild :: "string \<Rightarrow> string \<Rightarrow> bool" where
  "wild [] s = (s = [])"
| "wild (p # ps) [] = (p = CHR ''*'' \<and> wild ps [])"
| "wild (p # ps) (c # cs) =
     (if p = CHR ''*'' then wild ps (c # cs) \<or> wild (p # ps) cs
      else (p = CHR ''?'' \<or> p = c) \<and> wild ps cs)"
  by pat_completeness auto
termination
  by (relation "measure (\<lambda>(p, s). length p + length s)") auto

definition glob :: "path \<Rightarrow> string \<Rightarrow> filesystem \<Rightarrow> path list" where
  "glob root pattern t =
     filter (\<lambda>q. prefix root q \<and> list_all2 wild (parts pattern) (drop (length root) q))
            (map fst t)"

section \<open>The generator (\<open>generate_icons.py\<close>)\<close>

text \<open>
  What lies outside the script: whether Inkscape was found when the module was loaded
  (\<open>has_inkscape\<close>), what an Inkscape call does (given the contents of its input file
  when that can be read: whether it exits with status zero, and the contents it
  exports, if any), and scour's minifier.
\<close>

record env =
  has_inkscape :: bool
  inkscape :: "content option \<Rightarrow> bool \<times> content option"
  scourString :: "content \<Rightarrow> content"

text \<open>The return statement of \<open>process_entry\<close> that was reached.\<close>

datatype outcome = Skipped | NotFound | NoStyle | VectorOnly | Complete

text \<open>
  Lines 63 to 76: the source directories in order for \<open><entry>.svg\<close>, and only when
  that found nothing, in order again for the name with \<open>_\<close> replaced by \<open>-\<close>.
\<close>

definition resolve_source :: "filesystem \<Rightarrow> string list \<Rightarrow> string \<Rightarrow> path option" where
  "resolve_source t dirs entry =
     (case List.find (\<lambda>src_dir. exists t (parts src_dir @ parts (entry @ ''.svg''))) dirs of
        Some src_dir \<Rightarrow> Some (parts src_dir @ parts (entry @ ''.svg''))
      | None \<Rightarrow>
          (case List.find
                  (\<lambda>src_dir. exists t
                     (parts src_dir @ parts (str_replace ''_'' ''-'' entry @ ''.svg''))) dirs of
             Some src_dir \<Rightarrow>
               Some (parts src_dir @ parts (str_replace ''_'' ''-'' entry @ ''.svg''))
           | None \<Rightarrow> None))"

text \<open>Line 84, \<open>etree.parse(src_file)\<close>.\<close>

definition parse :: "path \<Rightarrow> filesystem \<Rightarrow> error + svg" where
  "parse p t =
     (case read_file p t of
        Inl e \<Rightarrow> Inl e
      | Inr (Svg doc) \<Rightarrow> Inr doc
      | Inr other \<Rightarrow> Inl XMLSyntaxError)"

text \<open>
  Lines 115 to 129 and 161 to 175: for every alias, make its directory, remove what
  is at the alias path, and link it to the primary by a relative path.
\<close>

fun link_aliases :: "path \<Rightarrow> string \<Rightarrow> string \<Rightarrow> string list \<Rightarrow> world \<Rightarrow> error + world" where
  "link_aliases root dest sfx [] w = Inr w"
| "link_aliases root dest sfx (dest_file # rest) w =
     (case mkdir (butlast (root @ parts (dest_file @ sfx))) w of
        Inl e \<Rightarrow> Inl e
      | Inr w1 \<Rightarrow>
          (case unlink True (root @ parts (dest_file @ sfx)) w1 of
             Inl e \<Rightarrow> Inl e
           | Inr w2 \<Rightarrow>
               (case relative_to (root @ parts (dest @ sfx))
                                 (butlast (root @ parts (dest_file @ sfx))) of
                  Inl e \<Rightarrow> Inl e
                | Inr target \<Rightarrow>
                    (case symlink target (root @ parts (dest_file @ sfx)) w2 of
                       Inl e \<Rightarrow> Inl e
                     | Inr w3 \<Rightarrow> link_aliases root dest sfx rest w3))))"

text \<open>
  Lines 136 to 149: the Inkscape call. What the tool exports is written to the export
  path when that can be written; a non-zero exit is caught and the source path is
  appended to \<open>failed_symlinks\<close>.
\<close>

definition run_inkscape :: "env \<Rightarrow> path \<Rightarrow> path \<Rightarrow> path \<Rightarrow> world \<Rightarrow> world" where
  "run_inkscape ev src_file input export w =
     (let result = inkscape ev (case stat_of (fs w) input of Regular c \<Rightarrow> Some c | _ \<Rightarrow> None);
          w1 = (case snd result of
                  None \<Rightarrow> w
                | Some c \<Rightarrow> (case write_file export c w of Inl e \<Rightarrow> w | Inr w' \<Rightarrow> w'))
      in if fst result then w1
         else w1\<lparr>failed_symlinks := failed_symlinks w1 @ [src_file]\<rparr>)"

text \<open>Lines 158 and 159: every match of the glob is unlinked.\<close>

fun unlink_all :: "path list \<Rightarrow> world \<Rightarrow> error + world" where
  "unlink_all [] w = Inr w"
| "unlink_all (p # ps) w =
     (case unlink False p w of Inl e \<Rightarrow> Inl e | Inr w1 \<Rightarrow> unlink_all ps w1)"

text \<open>Lines 134 to 175, reached only with Inkscape.\<close>

definition symbolic :: "env \<Rightarrow> path \<Rightarrow> string \<Rightarrow> string list \<Rightarrow> path \<Rightarrow> path \<Rightarrow> world
    \<Rightarrow> error + world" where
  "symbolic ev src_file dest aliases scalable_root symbolic_root w =
     (case mkdir (butlast (symbolic_root @ parts dest)) w of
        Inl e \<Rightarrow> Inl e
      | Inr w1 \<Rightarrow>
          (let w2 = run_inkscape ev src_file
                      (scalable_root @ parts (dest @ ''.svg''))
                      (with_suffix (symbolic_root @ parts dest) ''-symbolic.svg'') w1
           in case read_file (symbolic_root @ parts (dest @ ''-symbolic.svg'')) (fs w2) of
                Inl e \<Rightarrow> Inl e
              | Inr svg_data \<Rightarrow>
                  (case write_file (symbolic_root @ parts (dest @ ''-symbolic.svg''))
                                   (scourString ev svg_data) w2 of
                     Inl e \<Rightarrow> Inl e
                   | Inr w3 \<Rightarrow>
                       (case unlink_all (glob scalable_root (dest @ ''*.0.svg'') (fs w3)) w3 of
                          Inl e \<Rightarrow> Inl e
                        | Inr w4 \<Rightarrow>
                            link_aliases symbolic_root dest ''-symbolic.svg'' aliases w4))))"

text \<open>
  Lines 115 to 175, what follows the write of the primary: the vector aliases, and
  with Inkscape the symbolic variant and its aliases.
\<close>

definition finish :: "env \<Rightarrow> path \<Rightarrow> string \<Rightarrow> string list \<Rightarrow> path \<Rightarrow> path \<Rightarrow> world
    \<Rightarrow> error + world \<times> outcome" where
  "finish ev src_file dest aliases scalable_root symbolic_root w =
     (case link_aliases scalable_root dest ''.svg'' aliases w of
        Inl e \<Rightarrow> Inl e
      | Inr w1 \<Rightarrow>
          if \<not> has_inkscape ev then Inr (w1, VectorOnly)
          else
            (case symbolic ev src_file dest aliases scalable_root symbolic_root w1 of
               Inl e \<Rightarrow> Inl e
             | Inr w2 \<Rightarrow> Inr (w2, Complete)))"

text \<open>
  \<open>process_entry\<close>. \<open>dests[0]\<close> of an empty list would be an \<open>IndexError\<close>, but an empty
  list never gets there: \<open>any\<close> of nothing is false, and the entry is skipped.
\<close>

definition process_entry :: "env \<Rightarrow> string \<Rightarrow> string list \<Rightarrow> path \<Rightarrow> GeneratorEntry \<Rightarrow> world
    \<Rightarrow> error + world \<times> outcome" where
  "process_entry ev entry dests destination config w =
     (let scalable_root = destination @ [''scalable''];
          symbolic_root = destination @ [''symbolic'']
      in if \<not> list_ex (\<lambda>dest. \<not> exists (fs w) (scalable_root @ parts (dest @ ''.svg''))) dests
         then Inr (w, Skipped)
         else
           (case dests of
              [] \<Rightarrow> Inl IndexError
            | dest # aliases \<Rightarrow>
                (case mkdir (butlast (scalable_root @ parts dest)) w of
                   Inl e \<Rightarrow> Inl e
                 | Inr w1 \<Rightarrow>
                     (case resolve_source (fs w1) (src_paths config) entry of
                        None \<Rightarrow> Inr (w1, NotFound)
                      | Some src_file \<Rightarrow>
                          (case parse src_file (fs w1) of
                             Inl e \<Rightarrow> Inl e
                           | Inr doc \<Rightarrow>
                               (case transform config doc of
                                  None \<Rightarrow> Inr (w1, NoStyle)
                                | Some doc' \<Rightarrow>
                                    (case write_file (scalable_root @ parts (dest @ ''.svg''))
                                                     (Svg doc') w1 of
                                       Inl e \<Rightarrow> Inl e
                                     | Inr w2 \<Rightarrow>
                                         finish ev src_file dest aliases
                                           scalable_root symbolic_root w2)))))))"

text \<open>\<open>generate_destination\<close>: the entries of the mapping in order.\<close>

fun generate_destination :: "env \<Rightarrow> path \<Rightarrow> GeneratorEntry \<Rightarrow> MappingYaml \<Rightarrow> world
    \<Rightarrow> error + world" where
  "generate_destination ev destination config [] w = Inr w"
| "generate_destination ev destination config ((entry, dests) # rest) w =
     (case process_entry ev entry dests destination config w of
        Inl e \<Rightarrow> Inl e
      | Inr (w1, how) \<Rightarrow> generate_destination ev destination config rest w1)"

text \<open>
  \<open>generate_index_theme\<close>: \<open>ConfigParser.read\<close> passes over a file it cannot open;
  the section \<open>Icon Theme\<close> must be in what was read. Option names keep their case,
  an option that is there keeps its place. The file is always written.
\<close>

definition read_ini :: "filesystem \<Rightarrow> error + (string \<times> (string \<times> string) list) list" where
  "read_ini t =
     (case stat_of t [''index.theme''] of
        Regular (Ini sections) \<Rightarrow> Inr sections
      | Regular other \<Rightarrow> Inl ParsingError
      | _ \<Rightarrow> Inr [])"

text \<open>
  Lines 192 to 194: the three keys of the section \<open>Icon Theme\<close>. Setting an option
  checks its value as \<open>BasicInterpolation.before_set\<close> does: with every \<open>%%\<close> and
  every \<open>%(name)s\<close> taken out, no \<open>%\<close> may be left, or a \<open>ValueError\<close> is raised. An
  empty value is not checked.
\<close>

definition match_key :: "string \<Rightarrow> string option" where
  "match_key s =
     (if prefix ''%('' s then
        (let r = drop 2 s;
             k = takeWhile (\<lambda>x. x \<noteq> CHR '')'') r;
             r2 = dropWhile (\<lambda>x. x \<noteq> CHR '')'') r
         in if k \<noteq> [] \<and> prefix '')s'' r2 then Some (drop 2 r2) else None)
      else None)"

function strip_keys :: "string \<Rightarrow> string" where
  "strip_keys [] = []"
| "strip_keys (c # cs) =
     (case match_key (c # cs) of
        Some r \<Rightarrow> strip_keys r
      | None \<Rightarrow> c # strip_keys cs)"
  by pat_completeness auto
termination
proof (relation "measure length")
  show "wf (measure length)" by simp
next
  fix c :: char and cs r :: string
  assume m: "match_key (c # cs) = Some r"
  then have "r = drop 2 (dropWhile (\<lambda>x. x \<noteq> CHR '')'') (drop 2 (c # cs)))"
    by (auto simp: match_key_def Let_def split: if_splits)
  moreover have "length (dropWhile (\<lambda>x. x \<noteq> CHR '')'') (drop 2 (c # cs))) \<le> length (drop 2 (c # cs))"
    by (rule length_dropWhile_le)
  ultimately have "length r < length (c # cs)" by simp
  then show "(r, c # cs) \<in> measure length" by simp
next
  fix c :: char and cs :: string
  show "(cs, c # cs) \<in> measure length" by simp
qed

definition bad_percent :: "string \<Rightarrow> bool" where
  "bad_percent v = (CHR ''%'' \<in> set (strip_keys (str_replace ''%%'' [] v)))"

definition set_theme_keys :: "GeneratorEntry \<Rightarrow> (string \<times> (string \<times> string) list) list
    \<Rightarrow> error + (string \<times> (string \<times> string) list) list" where
  "set_theme_keys config sections =
     (case map_of sections ''Icon Theme'' of
        None \<Rightarrow> Inl KeyError
      | Some options \<Rightarrow>
          if bad_percent (name config) \<or> bad_percent (comment config) \<or>
             bad_percent (inherits config)
          then Inl ValueError
          else Inr (AList.update ''Icon Theme''
                      (AList.update ''Inherits'' (inherits config)
                         (AList.update ''Comment'' (comment config)
                            (AList.update ''Name'' (name config) options)))
                      sections))"

definition generate_index_theme :: "path \<Rightarrow> GeneratorEntry \<Rightarrow> world \<Rightarrow> error + world" where
  "generate_index_theme destination config w =
     (case read_ini (fs w) of
        Inl e \<Rightarrow> Inl e
      | Inr sections \<Rightarrow>
          (case set_theme_keys config sections of
             Inl e \<Rightarrow> Inl e
           | Inr sections' \<Rightarrow>
               write_file (destination @ [''index.theme'']) (Ini sections') w))"

text \<open>Lines 223 to 245: the size directories, each a link to \<open>scalable\<close>.\<close>

definition size_folders :: "string list" where
  "size_folders =
     [''8x8'', ''16x16'', ''16x16@2x'', ''18x18'', ''18x18@2x'', ''22x22'', ''22x22@2x'',
      ''24x24'', ''24x24@2x'', ''32x32'', ''32x32@2x'', ''42x42'', ''48x48'', ''48x48@2x'',
      ''64x64'', ''64x64@2x'', ''84x84'', ''96x96'', ''128x128'']"

fun link_sizes :: "path \<Rightarrow> string list \<Rightarrow> world \<Rightarrow> error + world" where
  "link_sizes destination [] w = Inr w"
| "link_sizes destination (folder # rest) w =
     (case symlink [''scalable''] (destination @ [folder]) w of
        Inl e \<Rightarrow> if e = FileExistsError then link_sizes destination rest w else Inl e
      | Inr w1 \<Rightarrow> link_sizes destination rest w1)"

text \<open>
  Lines 212 to 245: the loop over the sections of the configuration. The test of
  line 215 only logs.
\<close>

fun generate_all :: "env \<Rightarrow> (string \<times> GeneratorEntry) list \<Rightarrow> MappingYaml \<Rightarrow> world
    \<Rightarrow> error + world" where
  "generate_all ev [] mapping_yaml w = Inr w"
| "generate_all ev ((section, entry) # rest) mapping_yaml w =
     (case (if overwrite entry then rmtree (parts section) w else Inr w) of
        Inl e \<Rightarrow> Inl e
      | Inr w1 \<Rightarrow>
          (case generate_destination ev (parts section) entry mapping_yaml w1 of
             Inl e \<Rightarrow> Inl e
           | Inr w2 \<Rightarrow>
               (case generate_index_theme (parts section) entry w2 of
                  Inl e \<Rightarrow> Inl e
                | Inr w3 \<Rightarrow>
                    (case link_sizes (parts section) size_folders w3 of
                       Inl e \<Rightarrow> Inl e
                     | Inr w4 \<Rightarrow> generate_all ev rest mapping_yaml w4))))"

text \<open>
  \<open>main\<close>, from the configuration and the mapping as loaded, on a filesystem: the
  final state and the paths printed by lines 247 and 248.
\<close>

definition main :: "env \<Rightarrow> (string \<times> GeneratorEntry) list \<Rightarrow> MappingYaml \<Rightarrow> filesystem
    \<Rightarrow> error + world \<times> path list" where
  "main ev config mapping_yaml t =
     (let w = \<lparr>fs = t, journal = [], failed_symlinks = []\<rparr>
      in if \<not> has_inkscape ev then Inr (w, [])
         else
           (case generate_all ev config mapping_yaml w of
              Inl e \<Rightarrow> Inl e
            | Inr w1 \<Rightarrow> Inr (w1, failed_symlinks w1)))"

section \<open>The reconciler (\<open>find_missing_mappings.py\<close>)\<close>

text \<open>
  \<open>Path(s).stem\<close>: the last component, without its last suffix; a dot at the start or
  at the end of the name does not begin a suffix.
\<close>

definition path_name :: "string \<Rightarrow> string" where
  "path_name s = (case parts s of [] \<Rightarrow> [] | x # xs \<Rightarrow> last (x # xs))"

definition stem :: "string \<Rightarrow> string" where
  "stem s =
     (let n = path_name s;
          i = length n - 1 - length (takeWhile (\<lambda>c. c \<noteq> CHR ''.'') (rev n))
      in if CHR ''.'' \<in> set n \<and> 0 < i \<and> i < length n - 1 then take i n else n)"

definition join_path :: "path \<Rightarrow> string" where
  "join_path p = (case p of [] \<Rightarrow> ''.'' | x # xs \<Rightarrow> foldl (\<lambda>acc c. acc @ ''/'' @ c) x xs)"

text \<open>\<open>os.readlink\<close>: the target of a link, an \<open>OSError\<close> for anything else.\<close>

definition readlink :: "filesystem \<Rightarrow> string \<Rightarrow> error + string" where
  "readlink t s =
     (case node_at t (parts s) of
        Some (Link target) \<Rightarrow> Inr (join_path target)
      | _ \<Rightarrow> Inl OSError)"

text \<open>
  \<open>link_map\<close> is a dictionary of lists, in insertion order. Lines 18 to 21 (and 28 to
  31): a new name gets an empty list, then the path is appended to the name's list.
\<close>

definition append_link :: "string \<Rightarrow> string \<Rightarrow> (string \<times> string list) list
    \<Rightarrow> (string \<times> string list) list" where
  "append_link icon_name formatted_path link_map =
     (let link_map1 = (if map_of link_map icon_name = None
                       then AList.update icon_name [] link_map else link_map)
      in case map_of link_map1 icon_name of
           None \<Rightarrow> link_map1
         | Some links \<Rightarrow> AList.update icon_name (links @ [formatted_path]) link_map1)"

text \<open>
  Lines 8 to 31 over the paths the glob yields, in the order it yields them: the
  \<open>try\<close> branch for a path that \<open>readlink\<close> accepts, the \<open>except\<close> branch otherwise.
\<close>

fun reconcile :: "filesystem \<Rightarrow> string list \<Rightarrow> (string \<times> string list) list
    \<Rightarrow> (string \<times> string list) list" where
  "reconcile t [] link_map = link_map"
| "reconcile t (path # rest) link_map =
     (case readlink t path of
        Inr icon_source_path \<Rightarrow>
          reconcile t rest
            (append_link (stem icon_source_path)
               (removesuffix ''.svg'' (removeprefix ''arcticons-light/scalable/'' path))
               link_map)
      | Inl e \<Rightarrow>
          reconcile t rest
            (append_link (stem path)
               (removesuffix ''.svg'' (removeprefix ''arcticons-light/scalable/'' path))
               link_map))"

section \<open>Vocabulary of the claims\<close>

text \<open>
  An entry is complete when every one of its destinations exists under \<open>scalable\<close>,
  as \<open>Path.exists\<close> sees it.
\<close>

definition complete :: "filesystem \<Rightarrow> path \<Rightarrow> string list \<Rightarrow> bool" where
  "complete t destination dests =
     list_all (\<lambda>dest. exists t (destination @ [''scalable''] @ parts (dest @ ''.svg''))) dests"



text \<open>The state a run starts in.\<close>

definition fresh_world :: "filesystem \<Rightarrow> world" where
  "fresh_world t = \<lparr>fs = t, journal = [], failed_symlinks = []\<rparr>"


text \<open>
  The canonical name in the specification's words: the stem of the link target for a
  link, the path's own stem for anything else.
\<close>

definition spec_canonical :: "filesystem \<Rightarrow> string \<Rightarrow> string" where
  "spec_canonical t path =
     (case node_at t (parts path) of
        Some (Link target) \<Rightarrow> stem (join_path target)
      | _ \<Rightarrow> stem path)"


section \<open>Example inputs\<close>

text \<open>
  A source directory with two icons, the \<open>index.theme\<close> template, one theme, and a
  mapping with an alias and with a name that has no source.
\<close>

definition ex_doc :: svg where
  "ex_doc = \<lparr>circles = [Some ''0.75''],
              styles = [Some ''.a{fill:none;stroke:#fff;}''],
              remainder = ''<path class=a d=M1,1/>''\<rparr>"

definition ex_fs :: filesystem where
  "ex_fs =
     [([''icons''], Dir),
      ([''icons'', ''foo.svg''], File (Svg ex_doc)),
      ([''icons'', ''bar.svg''], File (Svg ex_doc)),
      ([''index.theme''],
       File (Ini [(''Icon Theme'',
                   [(''Name'', ''x''), (''Comment'', ''y''), (''Inherits'', ''z''),
                    (''Directories'', ''scalable'')])]))]"

definition ex_entry :: GeneratorEntry where
  "ex_entry =
     \<lparr>name = ''Arcticons Dark'', comment = ''line icons'', inherits = ''breeze'',
      overwrite = False, archive = False, src_color = ''#fff'', color = ''#000'',
      line_weight = 2, src_paths = [''icons'']\<rparr>"

definition ex_config :: "(string \<times> GeneratorEntry) list" where
  "ex_config = [(''theme'', ex_entry)]"

definition ex_mapping :: MappingYaml where
  "ex_mapping = [(''foo'', [''a/foo'', ''b/bar'']), (''bar'', [''a/baz'']), (''nope'', [''c/nope''])]"

text \<open>An Inkscape that exports its input unchanged, and one that fails and exports nothing.\<close>

definition env_ok :: env where
  "env_ok = \<lparr>has_inkscape = True, inkscape = (\<lambda>c. (True, c)), scourString = (\<lambda>c. c)\<rparr>"

definition env_fail :: env where
  "env_fail = \<lparr>has_inkscape = True, inkscape = (\<lambda>c. (False, None)), scourString = (\<lambda>c. c)\<rparr>"

text \<open>What the transformer makes of \<open>ex_doc\<close> for \<open>ex_entry\<close>.\<close>

definition ex_doc' :: svg where
  "ex_doc' = \<lparr>circles = [Some ''1.5''],
              styles = [Some ''.a{fill:none;stroke:#000;stroke-width:2px;}''],
              remainder = ''<path class=a d=M1,1/>''\<rparr>"

text \<open>The filesystem a first run with \<open>env_ok\<close> leaves behind.\<close>

definition ex_fs1 :: filesystem where
  "ex_fs1 = ex_fs @
     [([''theme''], Dir),
      ([''theme'', ''scalable''], Dir),
      ([''theme'', ''scalable'', ''a''], Dir),
      ([''theme'', ''scalable'', ''a'', ''foo.svg''], File (Svg ex_doc')),
      ([''theme'', ''scalable'', ''b''], Dir),
      ([''theme'', ''scalable'', ''b'', ''bar.svg''], Link [''..'', ''a'', ''foo.svg'']),
      ([''theme'', ''symbolic''], Dir),
      ([''theme'', ''symbolic'', ''a''], Dir),
      ([''theme'', ''symbolic'', ''a'', ''foo-symbolic.svg''], File (Svg ex_doc')),
      ([''theme'', ''symbolic'', ''b''], Dir),
      ([''theme'', ''symbolic'', ''b'', ''bar-symbolic.svg''],
       Link [''..'', ''a'', ''foo-symbolic.svg'']),
      ([''theme'', ''scalable'', ''a'', ''baz.svg''], File (Svg ex_doc')),
      ([''theme'', ''symbolic'', ''a'', ''baz-symbolic.svg''], File (Svg ex_doc')),
      ([''theme'', ''scalable'', ''c''], Dir),
      ([''theme'', ''index.theme''],
       File (Ini [(''Icon Theme'',
                   [(''Name'', ''Arcticons Dark''), (''Comment'', ''line icons''),
                    (''Inherits'', ''breeze''), (''Directories'', ''scalable'')])]))]
     @ map (\<lambda>folder. ([''theme'', folder], Link [''scalable''])) size_folders"

text \<open>The same without the symbolic directory.\<close>

definition ex_fs_nosym :: filesystem where
  "ex_fs_nosym = filter (\<lambda>(p, n). \<not> prefix [''theme'', ''symbolic''] p) ex_fs1"

text \<open>A destination whose primary is there with old contents, and whose alias is missing.\<close>

definition ex_fs_stale :: filesystem where
  "ex_fs_stale = ex_fs @
     [([''theme''], Dir), ([''theme'', ''scalable''], Dir), ([''theme'', ''scalable'', ''a''], Dir),
      ([''theme'', ''scalable'', ''a'', ''foo.svg''], File (Blob ''stale''))]"



text \<open>The state after the directories for \<open>c/nope\<close> were made on \<open>ex_fs\<close>.\<close>

definition ex_world_nope :: world where
  "ex_world_nope =
     \<lparr>fs = ex_fs @ [([''theme''], Dir), ([''theme'', ''scalable''], Dir),
                    ([''theme'', ''scalable'', ''c''], Dir)],
      journal = [Mkdir [''theme''], Mkdir [''theme'', ''scalable''],
                 Mkdir [''theme'', ''scalable'', ''c'']],
      failed_symlinks = []\<rparr>"


text \<open>A source without a style element, and the state its entry leaves behind.\<close>

definition ex_doc_plain :: svg where
  "ex_doc_plain = \<lparr>circles = [], styles = [], remainder = ''<path d=M1,1/>''\<rparr>"

definition ex_fs_nostyle :: filesystem where
  "ex_fs_nostyle = [([''icons''], Dir), ([''icons'', ''plain.svg''], File (Svg ex_doc_plain))]"

definition ex_world_nostyle :: world where
  "ex_world_nostyle =
     \<lparr>fs = ex_fs_nostyle @ [([''theme''], Dir), ([''theme'', ''scalable''], Dir),
                            ([''theme'', ''scalable'', ''apps''], Dir)],
      journal = [Mkdir [''theme''], Mkdir [''theme'', ''scalable''],
                 Mkdir [''theme'', ''scalable'', ''apps'']],
      failed_symlinks = []\<rparr>"


text \<open>Recolouring: a three-digit source colour that the new colour begins with, and two six-digit colours.\<close>

definition ex_entry_hex3 :: GeneratorEntry where
  "ex_entry_hex3 = ex_entry\<lparr>src_color := ''#111'', color := ''#111111''\<rparr>"

definition ex_entry_hex6 :: GeneratorEntry where
  "ex_entry_hex6 = ex_entry\<lparr>src_color := ''#111111'', color := ''#ff0000''\<rparr>"

definition ex_doc_hex3 :: svg where
  "ex_doc_hex3 = \<lparr>circles = [], styles = [Some ''.a{stroke:#111;}''],
                  remainder = ''<path fill=#111 d=M1,1/>''\<rparr>"

definition ex_doc_hex6 :: svg where
  "ex_doc_hex6 = \<lparr>circles = [], styles = [Some ''.a{stroke:#111111;fill:#111111;}'', Some ''.b{fill:#111111;}''],
                  remainder = ''<path fill=#111111 d=M1,1/>''\<rparr>"


text \<open>A generated tree with a primary, an alias of it, and a link whose target is gone.\<close>

definition ex_fs_light :: filesystem where
  "ex_fs_light =
     [([''arcticons-light''], Dir),
      ([''arcticons-light'', ''scalable''], Dir),
      ([''arcticons-light'', ''scalable'', ''a''], Dir),
      ([''arcticons-light'', ''scalable'', ''a'', ''foo.svg''], File (Svg ex_doc')),
      ([''arcticons-light'', ''scalable'', ''b''], Dir),
      ([''arcticons-light'', ''scalable'', ''b'', ''bar.svg''], Link [''..'', ''a'', ''foo.svg'']),
      ([''arcticons-light'', ''scalable'', ''b'', ''gone.svg''], Link [''..'', ''a'', ''old.svg''])]"


section \<open>Properties of the filesystem operations\<close>

lemma node_at_update:
  "node_at (AList.update p n t) q = (if q = p \<and> p \<noteq> [] then Some n else node_at t q)"
  by (auto simp: node_at_def update_conv')

lemma follow_nonlink:
  "\<forall>tg. node_at t p \<noteq> Some (Link tg) \<Longrightarrow> follow n t p = Some p"
  by (cases n) (auto split: option.splits node.splits)

lemma follow_end_not_link:
  "follow n t p = Some q \<Longrightarrow> node_at t q \<noteq> Some (Link tg)"
  by (induction n arbitrary: p) (auto split: option.splits node.splits)




lemma stat_of_node_Dir: "node_at t p = Some Dir \<Longrightarrow> stat_of t p = Directory"
  unfolding stat_of_def by (simp add: follow_nonlink)

lemma put_is_dir: "p \<noteq> [] \<Longrightarrow> is_dir (fs (put p Dir ev w)) p"
  unfolding is_dir_def put_def by (rule stat_of_node_Dir) (simp add: node_at_update)

lemma mkdir_is_dir: "mkdir p w = Inr w' \<Longrightarrow> is_dir (fs w') p"
proof (induction p w arbitrary: w' rule: mkdir.induct)
  case (1 p w)
  show ?case
  proof (cases "node_at (fs w) p \<noteq> None")
    case True
    with "1.prems" show ?thesis by (subst (asm) mkdir.simps) (auto split: if_splits)
  next
    case False
    then have ne: "p \<noteq> []" by (auto simp: node_at_def)
    from False "1.prems" obtain w0 where "w' = put p Dir (Mkdir p) w0"
      by (subst (asm) mkdir.simps) (auto split: stat.splits sum.splits)
    then show ?thesis using put_is_dir[OF ne] by simp
  qed
qed

text \<open>What \<open>mkdir\<close> changes: it adds directories, nothing else.\<close>

lemma mkdir_frame:
  "mkdir p w = Inr w' \<Longrightarrow>
     (node_at (fs w') q = node_at (fs w) q \<or>
      (node_at (fs w) q = None \<and> node_at (fs w') q = Some Dir)) \<and>
     failed_symlinks w' = failed_symlinks w"
proof (induction p w arbitrary: w' rule: mkdir.induct)
  case (1 p w)
  show ?case
  proof (cases "node_at (fs w) p \<noteq> None")
    case True
    with "1.prems" show ?thesis
      by (subst (asm) mkdir.simps) (auto split: if_splits)
  next
    case False
    then have ne: "p \<noteq> []" by (auto simp: node_at_def)
    show ?thesis
    proof (cases "stat_of (fs w) (butlast p)")
      case Absent
      with False "1.prems" obtain w1 where m: "mkdir (butlast p) w = Inr w1"
        and w': "w' = put p Dir (Mkdir p) w1"
        by (subst (asm) mkdir.simps) (auto split: sum.splits)
      from "1.IH"[OF False Absent m]
      have ih: "node_at (fs w1) q = node_at (fs w) q \<or>
                (node_at (fs w) q = None \<and> node_at (fs w1) q = Some Dir)"
        and fl: "failed_symlinks w1 = failed_symlinks w" by auto
      show ?thesis
      proof (cases "q = p")
        case True
        then show ?thesis using False ne fl by (simp add: w' put_def node_at_update)
      next
        case neq: False
        then have "node_at (fs w') q = node_at (fs w1) q"
          by (simp add: w' put_def node_at_update)
        then show ?thesis using ih fl by (simp add: w' put_def)
      qed
    next
      case Directory
      with False "1.prems" have w': "w' = put p Dir (Mkdir p) w"
        by (subst (asm) mkdir.simps) auto
      show ?thesis using False ne by (cases "q = p") (simp_all add: w' put_def node_at_update)
    next
      case Looping
      with False "1.prems" show ?thesis by (subst (asm) mkdir.simps) auto
    next
      case (Regular c)
      with False "1.prems" show ?thesis by (subst (asm) mkdir.simps) auto
    qed
  qed
qed

text \<open>A write through links: the path then holds what was written.\<close>

lemma follow_update_end:
  "follow n t p = Some q \<Longrightarrow> q \<noteq> [] \<Longrightarrow> follow n (AList.update q (File c) t) p = Some q"
proof (induction n arbitrary: p)
  case 0
  then show ?case
    by (cases "p = q") (auto simp: node_at_update split: option.splits node.splits)
next
  case (Suc n)
  show ?case
  proof (cases "node_at t p")
    case None
    with Suc.prems show ?thesis by (auto simp: node_at_update)
  next
    case (Some nd)
    show ?thesis
    proof (cases nd)
      case (Link tg)
      with Some Suc.prems have f: "follow n t (resolve_link p tg) = Some q" by simp
      have "p \<noteq> q" using follow_end_not_link[OF Suc.prems(1)] Some Link by auto
      then have "node_at (AList.update q (File c) t) p = Some (Link tg)"
        using Some Link by (simp add: node_at_update)
      then show ?thesis using Suc.IH[OF f Suc.prems(2)] by simp
    next
      case (File x)
      with Some Suc.prems show ?thesis by (auto simp: node_at_update)
    next
      case Dir
      with Some Suc.prems show ?thesis by (auto simp: node_at_update)
    qed
  qed
qed

lemma write_file_result:
  assumes "write_file p c w = Inr w'"
  obtains q where "follow 40 (fs w) p = Some q" "q \<noteq> []" "w' = put q (File c) (Write p) w"
proof -
  from assms obtain q where f: "follow 40 (fs w) p = Some q"
    by (auto simp: write_file_def split: option.splits)
  have ne: "q \<noteq> []"
  proof
    assume "q = []"
    then have "node_at (fs w) q = Some Dir" by (simp add: node_at_def)
    with assms f show False by (simp add: write_file_def)
  qed
  have "w' = put q (File c) (Write p) w"
    using assms f
    by (auto simp: write_file_def split: option.splits node.splits stat.splits)
  with f ne that show thesis by blast
qed

lemma write_file_stat:
  assumes "write_file p c w = Inr w'"
  shows "stat_of (fs w') p = Regular c"
proof -
  from assms obtain q where f: "follow 40 (fs w) p = Some q" and ne: "q \<noteq> []"
    and w': "w' = put q (File c) (Write p) w" by (rule write_file_result)
  have "follow 40 (fs w') p = Some q"
    using follow_update_end[OF f ne] by (simp add: w' put_def)
  moreover have "node_at (fs w') q = Some (File c)"
    using ne by (simp add: w' put_def node_at_update)
  ultimately show ?thesis by (simp add: stat_of_def)
qed


section \<open>The structure of \<open>process_entry\<close>\<close>

lemma complete_iff:
  "complete (fs w) destination dests \<longleftrightarrow>
   \<not> list_ex (\<lambda>dest. \<not> exists (fs w) ((destination @ [''scalable'']) @ parts (dest @ ''.svg''))) dests"
  by (simp add: complete_def list_all_iff list_ex_iff)

lemma process_entry_skip:
  "complete (fs w) destination dests \<Longrightarrow>
   process_entry ev entry dests destination config w = Inr (w, Skipped)"
  unfolding process_entry_def Let_def using complete_iff[of w destination dests]
  by (simp only: if_True if_False simp_thms)

lemma finish_outcome:
  "finish ev src_file dest aliases sr yr w = Inr (w', how) \<Longrightarrow> how = VectorOnly \<or> how = Complete"
  unfolding finish_def by (auto split: sum.splits if_splits)

lemma process_entry_unfold:
  assumes "\<not> complete (fs w) destination dests"
  shows "process_entry ev entry dests destination config w =
     (case dests of
        [] \<Rightarrow> Inl IndexError
      | dest # aliases \<Rightarrow>
          (case mkdir (butlast ((destination @ [''scalable'']) @ parts dest)) w of
             Inl e \<Rightarrow> Inl e
           | Inr w1 \<Rightarrow>
               (case resolve_source (fs w1) (src_paths config) entry of
                  None \<Rightarrow> Inr (w1, NotFound)
                | Some src_file \<Rightarrow>
                    (case parse src_file (fs w1) of
                       Inl e \<Rightarrow> Inl e
                     | Inr doc \<Rightarrow>
                         (case transform config doc of
                            None \<Rightarrow> Inr (w1, NoStyle)
                          | Some doc' \<Rightarrow>
                              (case write_file ((destination @ [''scalable'']) @ parts (dest @ ''.svg''))
                                               (Svg doc') w1 of
                                 Inl e \<Rightarrow> Inl e
                               | Inr w2 \<Rightarrow>
                                   finish ev src_file dest aliases
                                     (destination @ [''scalable'']) (destination @ [''symbolic'']) w2))))))"
proof -
  have ex: "list_ex (\<lambda>dest. \<not> exists (fs w) ((destination @ [''scalable'']) @ parts (dest @ ''.svg''))) dests"
    using assms complete_iff[of w destination dests] by blast
  show ?thesis
    unfolding process_entry_def Let_def by (simp only: ex if_True if_False simp_thms)
qed

lemma process_entry_not_skipped:
  assumes nc: "\<not> complete (fs w) destination dests"
  shows "process_entry ev entry dests destination config w \<noteq> Inr (w', Skipped)"
proof
  assume a: "process_entry ev entry dests destination config w = Inr (w', Skipped)"
  note u = a[unfolded process_entry_unfold[OF nc]]
  show False
  proof (cases dests)
    case Nil
    with u show False by simp
  next
    case (Cons dest aliases)
    note u1 = u[unfolded Cons list.case]
    show False
    proof (cases "mkdir (butlast ((destination @ [''scalable'']) @ parts dest)) w")
      case (Inl e)
      with u1 show False by simp
    next
      case (Inr w1)
      note u2 = u1[unfolded Inr sum.case]
      show False
      proof (cases "resolve_source (fs w1) (src_paths config) entry")
        case None
        with u2 show False by simp
      next
        case (Some src_file)
        note u3 = u2[unfolded Some option.case]
        show False
        proof (cases "parse src_file (fs w1)")
          case (Inl e)
          with u3 show False by simp
        next
          case (Inr doc)
          note u4 = u3[unfolded Inr sum.case]
          show False
          proof (cases "transform config doc")
            case None
            with u4 show False by simp
          next
            case (Some doc')
            note u5 = u4[unfolded Some option.case]
            show False
            proof (cases "write_file ((destination @ [''scalable'']) @ parts (dest @ ''.svg'')) (Svg doc') w1")
              case (Inl e)
              with u5 show False by simp
            next
              case (Inr w2)
              with u5 have "finish ev src_file dest aliases (destination @ [''scalable''])
                  (destination @ [''symbolic'']) w2 = Inr (w', Skipped)" by simp
              from finish_outcome[OF this] show False by simp
            qed
          qed
        qed
      qed
    qed
  qed
qed

lemma process_entry_cases:
  assumes nc: "\<not> complete (fs w) destination dests"
    and a: "process_entry ev entry dests destination config w = Inr (w', how)"
  obtains
    (NotFound) dest aliases where "dests = dest # aliases"
      "mkdir (butlast ((destination @ [''scalable'']) @ parts dest)) w = Inr w'"
      "resolve_source (fs w') (src_paths config) entry = None" "how = NotFound"
  | (NoStyle) dest aliases src_file doc where "dests = dest # aliases"
      "mkdir (butlast ((destination @ [''scalable'']) @ parts dest)) w = Inr w'"
      "resolve_source (fs w') (src_paths config) entry = Some src_file"
      "parse src_file (fs w') = Inr doc" "transform config doc = None" "how = NoStyle"
  | (Rendered) dest aliases w1 src_file doc doc' w2 where "dests = dest # aliases"
      "mkdir (butlast ((destination @ [''scalable'']) @ parts dest)) w = Inr w1"
      "resolve_source (fs w1) (src_paths config) entry = Some src_file"
      "parse src_file (fs w1) = Inr doc" "transform config doc = Some doc'"
      "write_file ((destination @ [''scalable'']) @ parts (dest @ ''.svg'')) (Svg doc') w1 = Inr w2"
      "finish ev src_file dest aliases (destination @ [''scalable''])
         (destination @ [''symbolic'']) w2 = Inr (w', how)"
proof -
  note u = a[unfolded process_entry_unfold[OF nc]]
  show thesis
  proof (cases dests)
    case Nil
    with u show thesis by simp
  next
    case (Cons dest aliases)
    note u1 = u[unfolded Cons list.case]
    show thesis
    proof (cases "mkdir (butlast ((destination @ [''scalable'']) @ parts dest)) w")
      case (Inl e)
      with u1 show thesis by simp
    next
      case m: (Inr w1)
      note u2 = u1[unfolded m sum.case]
      show thesis
      proof (cases "resolve_source (fs w1) (src_paths config) entry")
        case None
        with u2 have "w' = w1" "how = NotFound" by simp_all
        with Cons m None NotFound show thesis by blast
      next
        case r: (Some src_file)
        note u3 = u2[unfolded r option.case]
        show thesis
        proof (cases "parse src_file (fs w1)")
          case (Inl e)
          with u3 show thesis by simp
        next
          case p: (Inr doc)
          note u4 = u3[unfolded p sum.case]
          show thesis
          proof (cases "transform config doc")
            case None
            with u4 have "w' = w1" "how = NoStyle" by simp_all
            with Cons m r p None NoStyle show thesis by blast
          next
            case t: (Some doc')
            note u5 = u4[unfolded t option.case]
            show thesis
            proof (cases "write_file ((destination @ [''scalable'']) @ parts (dest @ ''.svg'')) (Svg doc') w1")
              case (Inl e)
              with u5 show thesis by simp
            next
              case wr: (Inr w2)
              with u5 have "finish ev src_file dest aliases (destination @ [''scalable''])
                  (destination @ [''symbolic'']) w2 = Inr (w', how)" by simp
              with Cons m r p t wr Rendered show thesis by blast
            qed
          qed
        qed
      qed
    qed
  qed
qed

lemma find_append_case:
  "List.find P (xs @ ys) = (case List.find P xs of None \<Rightarrow> List.find P ys | Some x \<Rightarrow> Some x)"
  by (induction xs) auto

lemma find_map_case:
  "List.find P (map f xs) = (case List.find (\<lambda>x. P (f x)) xs of None \<Rightarrow> None | Some x \<Rightarrow> Some (f x))"
  by (induction xs) auto

lemma replace_char:
  "str_replace [a] [b] s = map (\<lambda>c. if c = a then b else c) s"
  unfolding str_replace_def by (induction s) auto


section \<open>Properties of the text substitutions\<close>

lemma sub_decl_skip:
  assumes "kw \<noteq> []" "\<not> occurs kw (pre @ butlast kw)"
  shows "sub_decl kw repl (pre @ kw @ rest) = pre @ sub_decl kw repl (kw @ rest)"
  using assms
proof (induction pre)
  case Nil
  then show ?case by simp
next
  case (Cons c p)
  have np: "\<not> prefix kw ((c # p) @ butlast kw)" and no: "\<not> occurs kw (p @ butlast kw)"
    using Cons.prems(2) by auto
  have "\<not> prefix kw ((c # p) @ kw @ rest)"
  proof
    assume a: "prefix kw ((c # p) @ kw @ rest)"
    have b: "prefix ((c # p) @ butlast kw) ((c # p) @ kw @ rest)"
      using Cons.prems(1) by (metis append_butlast_last_id append.assoc prefix_def same_prefix_prefix prefixI)
    have "length kw \<le> length ((c # p) @ butlast kw)" by simp
    with a b have "prefix kw ((c # p) @ butlast kw)"
      by (metis prefix_length_prefix)
    with np show False by simp
  qed
  then have "match_decl kw ((c # p) @ kw @ rest) = None"
    by (simp add: match_decl_def)
  then show ?case using Cons.IH[OF Cons.prems(1) no] by simp
qed

lemma match_decl_hit:
  assumes "\<forall>c\<in>set ws. is_space c" "v \<noteq> []" "CHR '';'' \<notin> set v"
  shows "match_decl kw (kw @ ws @ '':'' @ v @ '';'' @ post) = Some (kw @ ws @ '':'', v, post)"
proof -
  have sp: "\<not> is_space CHR '':''" by (simp add: is_space_def)
  have tw: "takeWhile is_space (ws @ '':'' @ v @ '';'' @ post) = ws"
    using assms(1) sp by simp
  have dw: "dropWhile is_space (ws @ '':'' @ v @ '';'' @ post) = '':'' @ v @ '';'' @ post"
    using assms(1) sp by simp
  have tv: "takeWhile (\<lambda>x. x \<noteq> CHR '';'') (v @ '';'' @ post) = v"
    using assms(3) by (induction v) auto
  have dv: "dropWhile (\<lambda>x. x \<noteq> CHR '';'') (v @ '';'' @ post) = '';'' @ post"
    using assms(3) by (induction v) auto
  show ?thesis
    unfolding match_decl_def using tw dw tv dv assms(2) by (simp add: Let_def)
qed


lemma sub_decl_hit:
  "match_decl kw s = Some (g, v, r) \<Longrightarrow> sub_decl kw repl s = repl g v @ sub_decl kw repl r"
  by (cases s) (auto simp: match_decl_def Let_def split: if_splits)

lemma occurs_mid: "occurs kw (pre @ kw @ rest)"
  by (induction pre) (auto simp: neq_Nil_conv, (cases kw; cases rest; simp)+)

lemma occurs_weaken: "occurs (a @ b) s \<Longrightarrow> occurs a s"
  by (induction s) (auto dest: append_prefixD)

lemma sub_decl_absent: "\<not> occurs kw s \<Longrightarrow> sub_decl kw repl s = s"
proof (induction s)
  case Nil
  then show ?case by simp
next
  case (Cons c cs)
  then have "match_decl kw (c # cs) = None" by (simp add: match_decl_def)
  with Cons show ?case by simp
qed

lemma rewrite_at:
  assumes kw: "kw \<noteq> []" and first: "\<not> occurs kw (pre @ butlast kw)"
    and ws: "list_all is_space ws" and v: "v \<noteq> []" "CHR '';'' \<notin> set v"
  shows "sub_decl kw repl (pre @ kw @ ws @ '':'' @ v @ '';'' @ post)
           = pre @ repl (kw @ ws @ '':'') v @ sub_decl kw repl post"
proof -
  have m: "match_decl kw (kw @ ws @ '':'' @ v @ '';'' @ post) = Some (kw @ ws @ '':'', v, post)"
    using match_decl_hit[of ws v kw post] ws v by (simp add: list_all_iff)
  have "sub_decl kw repl (pre @ kw @ ws @ '':'' @ v @ '';'' @ post)
          = pre @ sub_decl kw repl (kw @ ws @ '':'' @ v @ '';'' @ post)"
    by (rule sub_decl_skip[OF kw first])
  also have "\<dots> = pre @ repl (kw @ ws @ '':'') v @ sub_decl kw repl post"
    by (simp only: sub_decl_hit[OF m])
  finally show ?thesis .
qed

lemma transform_None_iff:
  "transform config doc = None \<longleftrightarrow> (styles doc = [] \<or> hd (styles doc) = None)"
  unfolding transform_def Let_def scale_dots_def
  by (auto split: list.splits option.splits)


lemma prefix_takeWhile_free:
  assumes "h \<notin> set s"
  shows "prefix s xs \<longleftrightarrow> prefix s (takeWhile (\<lambda>x. x \<noteq> h) xs)"
  using assms
proof (induction s arbitrary: xs)
  case Nil
  then show ?case by simp
next
  case (Cons a s)
  then show ?case by (cases xs) auto
qed

lemma replace_takeWhile:
  "takeWhile (\<lambda>x. x \<noteq> h) (replace_nonempty (h # s) (h # d) t) = takeWhile (\<lambda>x. x \<noteq> h) t"
proof (induction "h # s" "h # d" t rule: replace_nonempty.induct)
  case 1
  then show ?case by simp
next
  case (2 c cs)
  then show ?case by auto
qed

lemma occurs_append_free:
  assumes "h \<notin> set d"
  shows "occurs (h # s) (d @ r) \<longleftrightarrow> occurs (h # s) r"
  using assms by (induction d) auto

lemma replace_no_occurrence:
  assumes hs: "h \<notin> set s" and hd: "h \<notin> set d"
    and ns: "\<not> prefix s d" and nd: "\<not> prefix d s"
  shows "\<not> occurs (h # s) (replace_nonempty (h # s) (h # d) t)"
proof (induction "h # s" "h # d" t rule: replace_nonempty.induct)
  case 1
  then show ?case by simp
next
  case (2 c cs)
  show ?case
  proof (cases "prefix (h # s) (c # cs)")
    case True
    let ?r = "replace_nonempty (h # s) (h # d) (drop (length (h # s)) (c # cs))"
    have ih: "\<not> occurs (h # s) ?r" using 2(1) True by simp
    have "\<not> prefix s (d @ ?r)"
    proof
      assume "prefix s (d @ ?r)"
      then have "prefix s d \<or> prefix d s"
        by (metis prefixI prefix_same_cases)
      with ns nd show False by simp
    qed
    moreover have "\<not> occurs (h # s) (d @ ?r)"
      using ih occurs_append_free[OF hd] by simp
    moreover have "replace_nonempty (h # s) (h # d) (c # cs) = (h # d) @ ?r"
      using True by auto
    ultimately show ?thesis by (simp del: replace_nonempty.simps)
  next
    case False
    have ih: "\<not> occurs (h # s) (replace_nonempty (h # s) (h # d) cs)"
      using 2(2) False by simp
    have "\<not> prefix (h # s) (c # replace_nonempty (h # s) (h # d) cs)"
    proof
      assume a: "prefix (h # s) (c # replace_nonempty (h # s) (h # d) cs)"
      then have c: "c = h" and "prefix s (replace_nonempty (h # s) (h # d) cs)" by auto
      then have "prefix s (takeWhile (\<lambda>x. x \<noteq> h) (replace_nonempty (h # s) (h # d) cs))"
        using prefix_takeWhile_free[OF hs] by simp
      then have "prefix s cs"
        using prefix_takeWhile_free[OF hs] replace_takeWhile by simp
      with c False show False by simp
    qed
    moreover have "replace_nonempty (h # s) (h # d) (c # cs) = c # replace_nonempty (h # s) (h # d) cs"
      using False by auto
    ultimately show ?thesis using ih by (simp del: replace_nonempty.simps)
  qed
qed

lemma replace_absent:
  "\<not> occurs old t \<Longrightarrow> replace_nonempty old new t = t"
  by (induction old new t rule: replace_nonempty.induct) auto



section \<open>Properties of the reconciler\<close>

lemma map_of_append_link:
  "map_of (append_link n f lm) =
     (map_of lm)(n \<mapsto> (case map_of lm n of None \<Rightarrow> [] | Some l \<Rightarrow> l) @ [f])"
  unfolding append_link_def Let_def
  by (auto simp: update_conv' split: option.splits)

lemma reconcile_step:
  "reconcile t (path # rest) lm =
     reconcile t rest
       (append_link (spec_canonical t path)
          (removesuffix ''.svg'' (removeprefix ''arcticons-light/scalable/'' path)) lm)"
  by (auto simp: spec_canonical_def readlink_def split: option.splits node.splits sum.splits)

lemma map_of_reconcile:
  "map_of (reconcile t paths lm) n =
     (if filter (\<lambda>p. spec_canonical t p = n) paths = [] then map_of lm n
      else Some ((case map_of lm n of None \<Rightarrow> [] | Some l \<Rightarrow> l) @
                 map (\<lambda>p. removesuffix ''.svg'' (removeprefix ''arcticons-light/scalable/'' p))
                   (filter (\<lambda>p. spec_canonical t p = n) paths)))"
proof (induction paths arbitrary: lm)
  case Nil
  then show ?case by simp
next
  case (Cons path rest)
  show ?case
    unfolding reconcile_step Cons.IH map_of_append_link
    by (auto split: option.splits)
qed


section \<open>A run on a settled tree\<close>









section \<open>The claims\<close>

text \<open>
  C1. Without Inkscape \<open>main\<close> returns before it reads the configuration: whatever
  the configuration, the mapping and the filesystem, nothing is changed, so no
  vector icon is rendered, no alias linked, no \<open>index.theme\<close> written and no size
  directory made.
\<close>

theorem main_without_inkscape_does_nothing:
  "main (ev\<lparr>has_inkscape := False\<rparr>) config mapping_yaml t
     = Inr (\<lparr>fs = t, journal = [], failed_symlinks = []\<rparr>, [])"
  by (simp add: main_def)

text \<open>
  C2. An Inkscape call that exits non-zero and exports nothing, on a fresh
  destination: the failure is caught, but opening the symbolic file that was never
  written raises \<open>FileNotFoundError\<close>, and the run ends there, with the remaining
  entries unprocessed and nothing reported.
\<close>

theorem tool_failure_aborts_run:
  "main env_fail ex_config ex_mapping ex_fs = Inl FileNotFoundError"
  by code_simp

text \<open>
  C4. An entry is skipped exactly when its primary and all its aliases exist. When one
  is missing and the source resolves, parses and has style text, the primary is
  written anew with the transformed source document, whatever it held before, and
  only then are the aliases linked.
\<close>

theorem skip_iff_complete_else_rerender:
  "(complete (fs w) destination dests \<longrightarrow>
      process_entry ev entry dests destination config w = Inr (w, Skipped)) \<and>
   (process_entry ev entry dests destination config w = Inr (w', Skipped) \<longrightarrow>
      complete (fs w) destination dests) \<and>
   (\<not> complete (fs w) destination dests \<longrightarrow> dests = dest # aliases \<longrightarrow>
    mkdir (butlast ((destination @ [''scalable'']) @ parts dest)) w = Inr w1 \<longrightarrow>
    resolve_source (fs w1) (src_paths config) entry = Some src_file \<longrightarrow>
    parse src_file (fs w1) = Inr doc \<longrightarrow>
    transform config doc = Some doc' \<longrightarrow>
    write_file ((destination @ [''scalable'']) @ parts (dest @ ''.svg'')) (Svg doc') w1 = Inr w2 \<longrightarrow>
      stat_of (fs w2) ((destination @ [''scalable'']) @ parts (dest @ ''.svg'')) = Regular (Svg doc') \<and>
      process_entry ev entry dests destination config w
        = finish ev src_file dest aliases (destination @ [''scalable''])
            (destination @ [''symbolic'']) w2)"
proof (intro conjI impI)
  assume "complete (fs w) destination dests"
  then show "process_entry ev entry dests destination config w = Inr (w, Skipped)"
    by (rule process_entry_skip)
next
  assume "process_entry ev entry dests destination config w = Inr (w', Skipped)"
  then show "complete (fs w) destination dests"
    using process_entry_not_skipped by blast
next
  assume "write_file ((destination @ [''scalable'']) @ parts (dest @ ''.svg'')) (Svg doc') w1 = Inr w2"
  then show "stat_of (fs w2) ((destination @ [''scalable'']) @ parts (dest @ ''.svg'')) = Regular (Svg doc')"
    by (rule write_file_stat)
next
  assume "\<not> complete (fs w) destination dests" "dests = dest # aliases"
    "mkdir (butlast ((destination @ [''scalable'']) @ parts dest)) w = Inr w1"
    "resolve_source (fs w1) (src_paths config) entry = Some src_file"
    "parse src_file (fs w1) = Inr doc" "transform config doc = Some doc'"
    "write_file ((destination @ [''scalable'']) @ parts (dest @ ''.svg'')) (Svg doc') w1 = Inr w2"
  then show "process_entry ev entry dests destination config w
        = finish ev src_file dest aliases (destination @ [''scalable''])
            (destination @ [''symbolic'']) w2"
    by (simp add: process_entry_unfold)
qed


theorem skip_iff_complete_else_rerender_witness:
  "\<not> complete (fs (fresh_world ex_fs_stale)) [''theme''] [''a/foo'', ''b/bar''] \<and>
   stat_of ex_fs_stale [''theme'', ''scalable'', ''a'', ''foo.svg''] = Regular (Blob ''stale'') \<and>
   mkdir (butlast (([''theme''] @ [''scalable'']) @ parts ''a/foo'')) (fresh_world ex_fs_stale)
     = Inr (fresh_world ex_fs_stale) \<and>
   resolve_source (fs (fresh_world ex_fs_stale)) (src_paths ex_entry) ''foo''
     = Some [''icons'', ''foo.svg''] \<and>
   parse [''icons'', ''foo.svg''] (fs (fresh_world ex_fs_stale)) = Inr ex_doc \<and>
   transform ex_entry ex_doc = Some ex_doc' \<and>
   write_file (([''theme''] @ [''scalable'']) @ parts (''a/foo'' @ ''.svg'')) (Svg ex_doc')
       (fresh_world ex_fs_stale)
     = Inr (put [''theme'', ''scalable'', ''a'', ''foo.svg''] (File (Svg ex_doc'))
              (Write [''theme'', ''scalable'', ''a'', ''foo.svg'']) (fresh_world ex_fs_stale)) \<and>
   stat_of (fs (put [''theme'', ''scalable'', ''a'', ''foo.svg''] (File (Svg ex_doc'))
              (Write [''theme'', ''scalable'', ''a'', ''foo.svg'']) (fresh_world ex_fs_stale)))
       (([''theme''] @ [''scalable'']) @ parts (''a/foo'' @ ''.svg''))
     = Regular (Svg ex_doc') \<and>
   process_entry env_ok ''foo'' [''a/foo'', ''b/bar''] [''theme''] ex_entry (fresh_world ex_fs_stale)
     \<noteq> Inr (fresh_world ex_fs_stale, Skipped) \<and>
   complete (fs (fresh_world ex_fs1)) [''theme''] [''a/foo'', ''b/bar''] \<and>
   process_entry env_ok ''foo'' [''a/foo'', ''b/bar''] [''theme''] ex_entry (fresh_world ex_fs1)
     = Inr (fresh_world ex_fs1, Skipped)"
proof -
  have g1: "complete (fs (fresh_world ex_fs1)) [''theme''] [''a/foo'', ''b/bar'']"
    by code_simp
  from skip_iff_complete_else_rerender[of "fresh_world ex_fs1" "[''theme'']"
      "[''a/foo'', ''b/bar'']" env_ok "''foo''" ex_entry] g1
  have g2: "process_entry env_ok ''foo'' [''a/foo'', ''b/bar''] [''theme''] ex_entry
      (fresh_world ex_fs1) = Inr (fresh_world ex_fs1, Skipped)" by blast
  have h1: "\<not> complete (fs (fresh_world ex_fs_stale)) [''theme''] [''a/foo'', ''b/bar'']"
    by code_simp
  have h0: "stat_of ex_fs_stale [''theme'', ''scalable'', ''a'', ''foo.svg''] = Regular (Blob ''stale'')"
    by code_simp
  have h2: "mkdir (butlast (([''theme''] @ [''scalable'']) @ parts ''a/foo'')) (fresh_world ex_fs_stale)
     = Inr (fresh_world ex_fs_stale)" by code_simp
  have h3: "resolve_source (fs (fresh_world ex_fs_stale)) (src_paths ex_entry) ''foo''
     = Some [''icons'', ''foo.svg'']" by code_simp
  have h4: "parse [''icons'', ''foo.svg''] (fs (fresh_world ex_fs_stale)) = Inr ex_doc" by code_simp
  have h5: "transform ex_entry ex_doc = Some ex_doc'" by code_simp
  have h6: "write_file (([''theme''] @ [''scalable'']) @ parts (''a/foo'' @ ''.svg'')) (Svg ex_doc')
       (fresh_world ex_fs_stale)
     = Inr (put [''theme'', ''scalable'', ''a'', ''foo.svg''] (File (Svg ex_doc'))
              (Write [''theme'', ''scalable'', ''a'', ''foo.svg'']) (fresh_world ex_fs_stale))"
    by code_simp
  note t = skip_iff_complete_else_rerender[of "fresh_world ex_fs_stale" "[''theme'']"
      "[''a/foo'', ''b/bar'']" env_ok "''foo''" ex_entry "fresh_world ex_fs_stale" "''a/foo''" "[''b/bar'']"
      "fresh_world ex_fs_stale" "[''icons'', ''foo.svg'']" ex_doc ex_doc'
      "put [''theme'', ''scalable'', ''a'', ''foo.svg''] (File (Svg ex_doc'))
              (Write [''theme'', ''scalable'', ''a'', ''foo.svg'']) (fresh_world ex_fs_stale)"]
  from t h1 have c1: "process_entry env_ok ''foo'' [''a/foo'', ''b/bar''] [''theme''] ex_entry (fresh_world ex_fs_stale)
     \<noteq> Inr (fresh_world ex_fs_stale, Skipped)" by blast
  from t h1 h2 h3 h4 h5 h6 have c2: "stat_of (fs (put [''theme'', ''scalable'', ''a'', ''foo.svg''] (File (Svg ex_doc'))
              (Write [''theme'', ''scalable'', ''a'', ''foo.svg'']) (fresh_world ex_fs_stale)))
       (([''theme''] @ [''scalable'']) @ parts (''a/foo'' @ ''.svg''))
     = Regular (Svg ex_doc')" by blast
  show ?thesis using h0 h1 h2 h3 h4 h5 h6 c1 c2 g1 g2 by blast
qed


text \<open>
  C9. The skip test looks only at the destinations under \<open>scalable\<close>: an entry whose
  vector files all exist is skipped, with Inkscape present and the symbolic variants
  missing as well, and two states that agree on the vector destinations get the same
  verdict. So a missing symbolic variant is never made up for on a later run.
\<close>

theorem skip_ignores_symbolic:
  "(complete (fs w) destination dests \<longrightarrow>
      process_entry ev entry dests destination config w = Inr (w, Skipped)) \<and>
   (list_all (\<lambda>dest. exists (fs w) (destination @ [''scalable''] @ parts (dest @ ''.svg''))
                   = exists (fs v) (destination @ [''scalable''] @ parts (dest @ ''.svg''))) dests \<longrightarrow>
      (process_entry ev entry dests destination config w = Inr (w, Skipped))
        = (process_entry ev entry dests destination config v = Inr (v, Skipped)))"
proof (intro conjI impI)
  assume "complete (fs w) destination dests"
  then show "process_entry ev entry dests destination config w = Inr (w, Skipped)"
    by (rule process_entry_skip)
next
  assume ag: "list_all (\<lambda>dest. exists (fs w) (destination @ [''scalable''] @ parts (dest @ ''.svg''))
                   = exists (fs v) (destination @ [''scalable''] @ parts (dest @ ''.svg''))) dests"
  then have c: "complete (fs w) destination dests = complete (fs v) destination dests"
    by (auto simp: complete_def list_all_iff)
  have "\<And>u. (process_entry ev entry dests destination config u = Inr (u, Skipped))
           = complete (fs u) destination dests"
    using process_entry_skip process_entry_not_skipped by blast
  with c show "(process_entry ev entry dests destination config w = Inr (w, Skipped))
        = (process_entry ev entry dests destination config v = Inr (v, Skipped))" by simp
qed

theorem skip_ignores_symbolic_witness:
  "complete (fs (fresh_world ex_fs_nosym)) [''theme''] [''a/foo'', ''b/bar''] \<and>
   stat_of ex_fs_nosym [''theme'', ''symbolic'', ''a'', ''foo-symbolic.svg''] = Absent \<and>
   stat_of ex_fs_nosym [''theme'', ''symbolic'', ''b'', ''bar-symbolic.svg''] = Absent \<and>
   has_inkscape env_ok \<and>
   process_entry env_ok ''foo'' [''a/foo'', ''b/bar''] [''theme''] ex_entry (fresh_world ex_fs_nosym)
     = Inr (fresh_world ex_fs_nosym, Skipped) \<and>
   list_all (\<lambda>dest. exists (fs (fresh_world ex_fs_nosym)) ([''theme''] @ [''scalable''] @ parts (dest @ ''.svg''))
                   = exists (fs (fresh_world ex_fs1)) ([''theme''] @ [''scalable''] @ parts (dest @ ''.svg'')))
      [''a/foo'', ''b/bar''] \<and>
   (process_entry env_ok ''foo'' [''a/foo'', ''b/bar''] [''theme''] ex_entry (fresh_world ex_fs_nosym)
       = Inr (fresh_world ex_fs_nosym, Skipped))
     = (process_entry env_ok ''foo'' [''a/foo'', ''b/bar''] [''theme''] ex_entry (fresh_world ex_fs1)
       = Inr (fresh_world ex_fs1, Skipped))"
proof -
  have h1: "complete (fs (fresh_world ex_fs_nosym)) [''theme''] [''a/foo'', ''b/bar'']"
    by code_simp
  have h2: "stat_of ex_fs_nosym [''theme'', ''symbolic'', ''a'', ''foo-symbolic.svg''] = Absent"
    "stat_of ex_fs_nosym [''theme'', ''symbolic'', ''b'', ''bar-symbolic.svg''] = Absent"
    "has_inkscape env_ok"
    by code_simp+
  have h3: "list_all (\<lambda>dest. exists (fs (fresh_world ex_fs_nosym)) ([''theme''] @ [''scalable''] @ parts (dest @ ''.svg''))
                   = exists (fs (fresh_world ex_fs1)) ([''theme''] @ [''scalable''] @ parts (dest @ ''.svg'')))
      [''a/foo'', ''b/bar'']" by code_simp
  note t = skip_ignores_symbolic[of "fresh_world ex_fs_nosym" "[''theme'']" "[''a/foo'', ''b/bar'']"
      env_ok "''foo''" ex_entry "fresh_world ex_fs1"]
  from t h1 have c1: "process_entry env_ok ''foo'' [''a/foo'', ''b/bar''] [''theme''] ex_entry
     (fresh_world ex_fs_nosym) = Inr (fresh_world ex_fs_nosym, Skipped)" by blast
  from t h3 have c2: "(process_entry env_ok ''foo'' [''a/foo'', ''b/bar''] [''theme''] ex_entry (fresh_world ex_fs_nosym)
       = Inr (fresh_world ex_fs_nosym, Skipped))
     = (process_entry env_ok ''foo'' [''a/foo'', ''b/bar''] [''theme''] ex_entry (fresh_world ex_fs1)
       = Inr (fresh_world ex_fs1, Skipped))" by blast
  show ?thesis using h1 h2 h3 c1 c2 by blast
qed


text \<open>
  C7. Source resolution is the first existing path in the list of \<open><dir>/<name>.svg\<close>
  over the source directories in order, followed by the same list for the name with
  every underscore turned into a hyphen. When nothing is found the entry ends as
  \<open>NotFound\<close>: the run goes on with the next entry, and nothing but the directories
  made before the lookup was added to the filesystem.
\<close>

theorem resolve_source_two_pass:
  "resolve_source t dirs entry =
     List.find (exists t)
       (map (\<lambda>src_dir. parts src_dir @ parts (entry @ ''.svg'')) dirs @
        map (\<lambda>src_dir. parts src_dir @
               parts (map (\<lambda>c. if c = CHR ''_'' then CHR ''-'' else c) entry @ ''.svg'')) dirs) \<and>
   (\<not> complete (fs w) destination dests \<longrightarrow> dests = dest # aliases \<longrightarrow>
    mkdir (butlast ((destination @ [''scalable'']) @ parts dest)) w = Inr w1 \<longrightarrow>
    resolve_source (fs w1) (src_paths config) entry = None \<longrightarrow>
      process_entry ev entry dests destination config w = Inr (w1, NotFound) \<and>
      generate_destination ev destination config ((entry, dests) # rest) w
        = generate_destination ev destination config rest w1 \<and>
      (\<forall>q. node_at (fs w1) q = node_at (fs w) q \<or>
           (node_at (fs w) q = None \<and> node_at (fs w1) q = Some Dir)))"
proof (intro conjI impI allI)
  show "resolve_source t dirs entry =
     List.find (exists t)
       (map (\<lambda>src_dir. parts src_dir @ parts (entry @ ''.svg'')) dirs @
        map (\<lambda>src_dir. parts src_dir @
               parts (map (\<lambda>c. if c = CHR ''_'' then CHR ''-'' else c) entry @ ''.svg'')) dirs)"
    unfolding resolve_source_def replace_char find_append_case find_map_case
    by (simp split: option.splits)
next
  assume h: "\<not> complete (fs w) destination dests" "dests = dest # aliases"
    "mkdir (butlast ((destination @ [''scalable'']) @ parts dest)) w = Inr w1"
    "resolve_source (fs w1) (src_paths config) entry = None"
  then show pe: "process_entry ev entry dests destination config w = Inr (w1, NotFound)"
    by (simp add: process_entry_unfold)
  then show "generate_destination ev destination config ((entry, dests) # rest) w
        = generate_destination ev destination config rest w1" by simp
  fix q
  show "node_at (fs w1) q = node_at (fs w) q \<or>
           (node_at (fs w) q = None \<and> node_at (fs w1) q = Some Dir)"
    using mkdir_frame[OF h(3)] by blast
qed

theorem resolve_source_two_pass_witness:
  "\<not> complete (fs (fresh_world ex_fs)) [''theme''] [''c/nope''] \<and>
   mkdir (butlast (([''theme''] @ [''scalable'']) @ parts ''c/nope'')) (fresh_world ex_fs)
     = Inr ex_world_nope \<and>
   resolve_source (fs ex_world_nope) (src_paths ex_entry) ''nope'' = None \<and>
   process_entry env_ok ''nope'' [''c/nope''] [''theme''] ex_entry (fresh_world ex_fs)
     = Inr (ex_world_nope, NotFound) \<and>
   generate_destination env_ok [''theme''] ex_entry [(''nope'', [''c/nope''])] (fresh_world ex_fs)
     = Inr ex_world_nope \<and>
   node_at (fs ex_world_nope) [''theme'', ''scalable'', ''c'', ''nope.svg''] = None \<and>
   resolve_source [([''x'', ''a-b.svg''], File (Blob [])), ([''y'', ''a_b.svg''], File (Blob []))]
       [''x'', ''y''] ''a_b''
     = Some [''y'', ''a_b.svg'']"
proof -
  have h1: "\<not> complete (fs (fresh_world ex_fs)) [''theme''] [''c/nope'']" by code_simp
  have h2: "mkdir (butlast (([''theme''] @ [''scalable'']) @ parts ''c/nope'')) (fresh_world ex_fs)
     = Inr ex_world_nope" by code_simp
  have h3: "resolve_source (fs ex_world_nope) (src_paths ex_entry) ''nope'' = None" by code_simp
  note t = resolve_source_two_pass[where w = "fresh_world ex_fs" and destination = "[''theme'']"
      and dests = "[''c/nope'']" and dest = "''c/nope''" and aliases = "[]" and ?w1.0 = ex_world_nope
      and config = ex_entry and entry = "''nope''" and ev = env_ok and rest = "[]"]
  note t2 = resolve_source_two_pass[where
      t = "[([''x'', ''a-b.svg''], File (Blob [])), ([''y'', ''a_b.svg''], File (Blob []))]"
      and dirs = "[''x'', ''y'']" and entry = "''a_b''"]
  from t h1 h2 h3 have c1: "process_entry env_ok ''nope'' [''c/nope''] [''theme''] ex_entry
      (fresh_world ex_fs) = Inr (ex_world_nope, NotFound)"
    and c2: "generate_destination env_ok [''theme''] ex_entry [(''nope'', [''c/nope''])]
      (fresh_world ex_fs) = generate_destination env_ok [''theme''] ex_entry [] ex_world_nope"
    and c3: "node_at (fs ex_world_nope) [''theme'', ''scalable'', ''c'', ''nope.svg'']
               = node_at (fs (fresh_world ex_fs)) [''theme'', ''scalable'', ''c'', ''nope.svg''] \<or>
             (node_at (fs (fresh_world ex_fs)) [''theme'', ''scalable'', ''c'', ''nope.svg''] = None \<and>
              node_at (fs ex_world_nope) [''theme'', ''scalable'', ''c'', ''nope.svg''] = Some Dir)"
    by blast+
  have n0: "node_at (fs (fresh_world ex_fs)) [''theme'', ''scalable'', ''c'', ''nope.svg''] = None"
    by code_simp
  have n1: "node_at (fs ex_world_nope) [''theme'', ''scalable'', ''c'', ''nope.svg''] \<noteq> Some Dir"
    by code_simp
  from c3 n0 n1 have c3': "node_at (fs ex_world_nope) [''theme'', ''scalable'', ''c'', ''nope.svg''] = None"
    by auto
  from t2 have "resolve_source [([''x'', ''a-b.svg''], File (Blob [])), ([''y'', ''a_b.svg''], File (Blob []))]
       [''x'', ''y''] ''a_b'' =
     List.find (exists [([''x'', ''a-b.svg''], File (Blob [])), ([''y'', ''a_b.svg''], File (Blob []))])
       (map (\<lambda>src_dir. parts src_dir @ parts (''a_b'' @ ''.svg'')) [''x'', ''y''] @
        map (\<lambda>src_dir. parts src_dir @
               parts (map (\<lambda>c. if c = CHR ''_'' then CHR ''-'' else c) ''a_b'' @ ''.svg'')) [''x'', ''y''])"
    by blast
  also have "\<dots> = Some [''y'', ''a_b.svg'']" by code_simp
  finally have c4: "resolve_source [([''x'', ''a-b.svg''], File (Blob [])), ([''y'', ''a_b.svg''], File (Blob []))]
       [''x'', ''y''] ''a_b'' = Some [''y'', ''a_b.svg'']" .
  show ?thesis using h1 h2 h3 c1 c2 c3' c4 by simp
qed


text \<open>
  C10. An entry that is not skipped and ends without a source or without style text
  leaves the state \<open>mkdir\<close> produced: the directory of the primary under \<open>scalable\<close>
  exists, the lookup (and the parse) ran on the filesystem with that directory in it,
  and no node other than new directories was added or changed.
\<close>

theorem directories_left_behind:
  "\<not> complete (fs w) destination dests \<longrightarrow>
   process_entry ev entry dests destination config w = Inr (w', how) \<longrightarrow>
   (how = NotFound \<or> how = NoStyle) \<longrightarrow>
     (\<exists>dest aliases.
        dests = dest # aliases \<and>
        mkdir (butlast ((destination @ [''scalable'']) @ parts dest)) w = Inr w' \<and>
        is_dir (fs w') (butlast ((destination @ [''scalable'']) @ parts dest)) \<and>
        (how = NotFound \<longrightarrow> resolve_source (fs w') (src_paths config) entry = None) \<and>
        (how = NoStyle \<longrightarrow>
           (\<exists>src_file doc. resolve_source (fs w') (src_paths config) entry = Some src_file \<and>
              parse src_file (fs w') = Inr doc \<and> transform config doc = None))) \<and>
     (\<forall>q. node_at (fs w') q = node_at (fs w) q \<or>
          (node_at (fs w) q = None \<and> node_at (fs w') q = Some Dir))"
proof (intro impI)
  assume nc: "\<not> complete (fs w) destination dests"
    and pe: "process_entry ev entry dests destination config w = Inr (w', how)"
    and how: "how = NotFound \<or> how = NoStyle"
  from nc pe show "(\<exists>dest aliases.
        dests = dest # aliases \<and>
        mkdir (butlast ((destination @ [''scalable'']) @ parts dest)) w = Inr w' \<and>
        is_dir (fs w') (butlast ((destination @ [''scalable'']) @ parts dest)) \<and>
        (how = NotFound \<longrightarrow> resolve_source (fs w') (src_paths config) entry = None) \<and>
        (how = NoStyle \<longrightarrow>
           (\<exists>src_file doc. resolve_source (fs w') (src_paths config) entry = Some src_file \<and>
              parse src_file (fs w') = Inr doc \<and> transform config doc = None))) \<and>
     (\<forall>q. node_at (fs w') q = node_at (fs w) q \<or>
          (node_at (fs w) q = None \<and> node_at (fs w') q = Some Dir))"
  proof (cases rule: process_entry_cases)
    case (NotFound dest aliases)
    from mkdir_is_dir[OF NotFound(2)] mkdir_frame[OF NotFound(2)] NotFound
    show ?thesis by auto
  next
    case (NoStyle dest aliases src_file doc)
    from mkdir_is_dir[OF NoStyle(2)] mkdir_frame[OF NoStyle(2)] NoStyle
    show ?thesis by auto
  next
    case (Rendered dest aliases w1 src_file doc doc' w2)
    from finish_outcome[OF Rendered(7)] how show ?thesis by auto
  qed
qed

theorem directories_left_behind_witness:
  "\<not> complete (fs (fresh_world ex_fs_nostyle)) [''theme''] [''apps/plain''] \<and>
   process_entry env_ok ''plain'' [''apps/plain''] [''theme''] ex_entry (fresh_world ex_fs_nostyle)
     = Inr (ex_world_nostyle, NoStyle) \<and>
   \<not> is_dir (fs (fresh_world ex_fs_nostyle)) [''theme'', ''scalable'', ''apps''] \<and>
   is_dir (fs ex_world_nostyle) [''theme'', ''scalable'', ''apps''] \<and>
   node_at (fs ex_world_nostyle) [''theme'', ''scalable'', ''apps'', ''plain.svg''] = None \<and>
   \<not> complete (fs (fresh_world ex_fs)) [''theme''] [''c/nope''] \<and>
   process_entry env_ok ''nope'' [''c/nope''] [''theme''] ex_entry (fresh_world ex_fs)
     = Inr (ex_world_nope, NotFound) \<and>
   is_dir (fs ex_world_nope) [''theme'', ''scalable'', ''c''] \<and>
   resolve_source (fs ex_world_nope) (src_paths ex_entry) ''nope'' = None"
proof -
  have h1: "\<not> complete (fs (fresh_world ex_fs_nostyle)) [''theme''] [''apps/plain'']"
    by code_simp
  have h2: "process_entry env_ok ''plain'' [''apps/plain''] [''theme''] ex_entry
      (fresh_world ex_fs_nostyle) = Inr (ex_world_nostyle, NoStyle)" by code_simp
  have h3: "\<not> is_dir (fs (fresh_world ex_fs_nostyle)) [''theme'', ''scalable'', ''apps'']"
    by code_simp
  have e: "butlast (([''theme''] @ [''scalable'']) @ parts ''apps/plain'')
             = [''theme'', ''scalable'', ''apps'']" by code_simp
  from directories_left_behind[where w = "fresh_world ex_fs_nostyle" and destination = "[''theme'']"
      and dests = "[''apps/plain'']" and ev = env_ok and entry = "''plain''" and config = ex_entry
      and w' = ex_world_nostyle and how = NoStyle] h1 h2
  have c: "(\<exists>dest aliases. [''apps/plain''] = dest # aliases \<and>
        is_dir (fs ex_world_nostyle) (butlast (([''theme''] @ [''scalable'']) @ parts dest)))"
    and f: "\<forall>q. node_at (fs ex_world_nostyle) q = node_at (fs (fresh_world ex_fs_nostyle)) q \<or>
          (node_at (fs (fresh_world ex_fs_nostyle)) q = None \<and>
           node_at (fs ex_world_nostyle) q = Some Dir)"
    by blast+
  from c e have c1: "is_dir (fs ex_world_nostyle) [''theme'', ''scalable'', ''apps'']" by auto
  have n0: "node_at (fs (fresh_world ex_fs_nostyle)) [''theme'', ''scalable'', ''apps'', ''plain.svg''] = None"
    "node_at (fs ex_world_nostyle) [''theme'', ''scalable'', ''apps'', ''plain.svg''] \<noteq> Some Dir"
    by code_simp+
  from f n0 have c2: "node_at (fs ex_world_nostyle) [''theme'', ''scalable'', ''apps'', ''plain.svg''] = None"
    by metis
  have g1: "\<not> complete (fs (fresh_world ex_fs)) [''theme''] [''c/nope'']" by code_simp
  have g2: "process_entry env_ok ''nope'' [''c/nope''] [''theme''] ex_entry (fresh_world ex_fs)
     = Inr (ex_world_nope, NotFound)" by code_simp
  have e2: "butlast (([''theme''] @ [''scalable'']) @ parts ''c/nope'')
             = [''theme'', ''scalable'', ''c'']" by code_simp
  from directories_left_behind[where w = "fresh_world ex_fs" and destination = "[''theme'']"
      and dests = "[''c/nope'']" and ev = env_ok and entry = "''nope''" and config = ex_entry
      and w' = ex_world_nope and how = NotFound] g1 g2
  have d: "(\<exists>dest aliases. [''c/nope''] = dest # aliases \<and>
        is_dir (fs ex_world_nope) (butlast (([''theme''] @ [''scalable'']) @ parts dest)))"
    and d2: "resolve_source (fs ex_world_nope) (src_paths ex_entry) ''nope'' = None"
    by blast+
  from d e2 have d1: "is_dir (fs ex_world_nope) [''theme'', ''scalable'', ''c'']" by auto
  show ?thesis using h1 h2 h3 c1 c2 g1 g2 d1 d2 by blast
qed


text \<open>
  C5 fails in the code. On a declaration that ends in a semicolon the code does what
  the claim says: only the value of \<open>stroke-width\<close> changes, and a missing width is put
  right behind the \<open>stroke\<close> declaration. But the patterns of lines 98 and 104 take the
  value to run up to the next semicolon, and the last declaration of a rule need not
  have one. Then the replaced text runs through the closing brace into the following
  rule: with \<open>stroke-width:1px\<close> closing rule \<open>.a\<close>, rule \<open>.b\<close> is deleted along with
  the brace; with \<open>stroke:#fff\<close> closing it, the new width lands inside rule \<open>.b\<close>; and
  with no semicolon behind the declaration at all the text is left as it is, the
  weight not applied.
\<close>

theorem stroke_width_swallows_rule:
  "set_stroke_width 2 ''.a{stroke-width:1px;}.b{fill:red;}'' = ''.a{stroke-width:2px;}.b{fill:red;}'' \<and>
   set_stroke_width 2 ''.a{stroke:#fff;}.b{fill:red;}'' = ''.a{stroke:#fff;stroke-width:2px;}.b{fill:red;}'' \<and>
   set_stroke_width 2 ''.a{stroke-width:1px}.b{fill:red;}'' = ''.a{stroke-width:2px;}'' \<and>
   set_stroke_width 2 ''.a{stroke-width:1px}.b{fill:red;}'' \<noteq> ''.a{stroke-width:2px}.b{fill:red;}'' \<and>
   set_stroke_width 2 ''.a{stroke:#fff}.b{fill:red;}'' = ''.a{stroke:#fff}.b{fill:red;stroke-width:2px;}'' \<and>
   set_stroke_width 2 ''.a{stroke-width:1px}'' = ''.a{stroke-width:1px}'' \<and>
   styles (stroke_width_step (ex_entry\<lparr>line_weight := 2\<rparr>)
             \<lparr>circles = [], styles = [Some ''.a{stroke-width:1px}.b{fill:red;}''], remainder = []\<rparr>)
     = [Some ''.a{stroke-width:2px;}'']"
  by code_simp



text \<open>
  C6, as the code has it. The recolour step assigns \<open>str.replace\<close> of the first style
  element's text and touches nothing else: circles, the other style elements and the
  rest of the document stay. A text without the source token is unchanged. The result
  is free of the source token when both tokens begin with the same character (the
  \<open>#\<close> of a hex colour), have it nowhere else, and neither is a prefix of the other.
\<close>

theorem recolor_style_text_only:
  "circles (recolor config doc) = circles doc \<and>
   remainder (recolor config doc) = remainder doc \<and>
   tl (styles (recolor config doc)) = tl (styles doc) \<and>
   (styles doc = Some css # others \<longrightarrow>
      styles (recolor config doc)
        = Some (str_replace (src_color config) (color config) css) # others) \<and>
   (src_color config \<noteq> [] \<longrightarrow> \<not> occurs (src_color config) css \<longrightarrow>
      str_replace (src_color config) (color config) css = css) \<and>
   (src_color config = h # s \<longrightarrow> color config = h # d \<longrightarrow>
    h \<notin> set s \<longrightarrow> h \<notin> set d \<longrightarrow> \<not> prefix s d \<longrightarrow> \<not> prefix d s \<longrightarrow>
      \<not> occurs (src_color config) (str_replace (src_color config) (color config) css))"
proof (intro conjI impI)
  show "circles (recolor config doc) = circles doc"
    by (simp add: recolor_def split: list.splits option.splits)
  show "remainder (recolor config doc) = remainder doc"
    by (simp add: recolor_def split: list.splits option.splits)
  show "tl (styles (recolor config doc)) = tl (styles doc)"
    by (simp add: recolor_def split: list.splits option.splits)
next
  assume "styles doc = Some css # others"
  then show "styles (recolor config doc)
        = Some (str_replace (src_color config) (color config) css) # others"
    by (simp add: recolor_def)
next
  assume "src_color config \<noteq> []" "\<not> occurs (src_color config) css"
  then show "str_replace (src_color config) (color config) css = css"
    by (simp add: str_replace_def replace_absent)
next
  assume h: "src_color config = h # s" "color config = h # d" "h \<notin> set s" "h \<notin> set d"
    "\<not> prefix s d" "\<not> prefix d s"
  have "\<not> occurs (h # s) (replace_nonempty (h # s) (h # d) css)"
    using h(3-6) by (rule replace_no_occurrence)
  then show "\<not> occurs (src_color config) (str_replace (src_color config) (color config) css)"
    using h(1,2) by (simp add: str_replace_def)
qed

theorem recolor_style_text_only_witness:
  "styles ex_doc_hex6 = Some ''.a{stroke:#111111;fill:#111111;}'' # [Some ''.b{fill:#111111;}''] \<and>
   styles (recolor ex_entry_hex6 ex_doc_hex6)
     = [Some ''.a{stroke:#ff0000;fill:#ff0000;}'', Some ''.b{fill:#111111;}''] \<and>
   remainder (recolor ex_entry_hex6 ex_doc_hex6) = ''<path fill=#111111 d=M1,1/>'' \<and>
   src_color ex_entry_hex6 = CHR ''#'' # ''111111'' \<and> color ex_entry_hex6 = CHR ''#'' # ''ff0000'' \<and>
   CHR ''#'' \<notin> set ''111111'' \<and> CHR ''#'' \<notin> set ''ff0000'' \<and>
   \<not> prefix ''111111'' ''ff0000'' \<and> \<not> prefix ''ff0000'' ''111111'' \<and>
   \<not> occurs (src_color ex_entry_hex6)
       (str_replace (src_color ex_entry_hex6) (color ex_entry_hex6) ''.a{stroke:#111111;fill:#111111;}'') \<and>
   src_color ex_entry_hex6 \<noteq> [] \<and> \<not> occurs (src_color ex_entry_hex6) ''.a{fill:none;}'' \<and>
   str_replace (src_color ex_entry_hex6) (color ex_entry_hex6) ''.a{fill:none;}'' = ''.a{fill:none;}''"
proof -
  have a: "styles ex_doc_hex6 = Some ''.a{stroke:#111111;fill:#111111;}'' # [Some ''.b{fill:#111111;}'']"
    by code_simp
  have b: "src_color ex_entry_hex6 = CHR ''#'' # ''111111''" "color ex_entry_hex6 = CHR ''#'' # ''ff0000''"
    "CHR ''#'' \<notin> set ''111111''" "CHR ''#'' \<notin> set ''ff0000''"
    "\<not> prefix ''111111'' ''ff0000''" "\<not> prefix ''ff0000'' ''111111''"
    by code_simp+
  have c: "src_color ex_entry_hex6 \<noteq> []" "\<not> occurs (src_color ex_entry_hex6) ''.a{fill:none;}''"
    by code_simp+
  note t = recolor_style_text_only[where config = ex_entry_hex6 and doc = ex_doc_hex6
      and css = "''.a{stroke:#111111;fill:#111111;}''" and others = "[Some ''.b{fill:#111111;}'']"
      and h = "CHR ''#''" and s = "''111111''" and d = "''ff0000''"]
  note t' = recolor_style_text_only[where config = ex_entry_hex6 and css = "''.a{fill:none;}''"]
  from t a have "styles (recolor ex_entry_hex6 ex_doc_hex6)
     = Some (str_replace (src_color ex_entry_hex6) (color ex_entry_hex6) ''.a{stroke:#111111;fill:#111111;}'')
         # [Some ''.b{fill:#111111;}'']" by blast
  also have "\<dots> = [Some ''.a{stroke:#ff0000;fill:#ff0000;}'', Some ''.b{fill:#111111;}'']"
    by code_simp
  finally have c1: "styles (recolor ex_entry_hex6 ex_doc_hex6)
     = [Some ''.a{stroke:#ff0000;fill:#ff0000;}'', Some ''.b{fill:#111111;}'']" .
  from t have "remainder (recolor ex_entry_hex6 ex_doc_hex6) = remainder ex_doc_hex6" by blast
  also have "\<dots> = ''<path fill=#111111 d=M1,1/>''" by code_simp
  finally have c2: "remainder (recolor ex_entry_hex6 ex_doc_hex6) = ''<path fill=#111111 d=M1,1/>''" .
  from t b have c3: "\<not> occurs (src_color ex_entry_hex6)
       (str_replace (src_color ex_entry_hex6) (color ex_entry_hex6) ''.a{stroke:#111111;fill:#111111;}'')"
    by blast
  from t' c have c4: "str_replace (src_color ex_entry_hex6) (color ex_entry_hex6) ''.a{fill:none;}''
      = ''.a{fill:none;}''" by blast
  show ?thesis by (intro conjI a b c c1 c2 c3 c4)
qed


text \<open>
  C6 as stated fails: with \<open>#111\<close> to be replaced by \<open>#111111\<close>, the new text still
  contains \<open>#111\<close>.
\<close>

theorem recolor_leaves_source_token:
  "styles (recolor ex_entry_hex3 ex_doc_hex3) = [Some ''.a{stroke:#111111;}''] \<and>
   occurs (src_color ex_entry_hex3) ''.a{stroke:#111111;}''"
  by code_simp


text \<open>
  C8. The reconciler files every path under the stem of its link target when it is a
  link, and under its own stem otherwise (a regular file, a missing path, anything
  \<open>readlink\<close> refuses). The list it holds for a name is the list of the paths with
  that canonical name, prefix and \<open>.svg\<close> removed, in the order the glob yielded them.
  A tree with the primary \<open>a/foo\<close> and its alias \<open>b/bar\<close> gives the group \<open>foo\<close> with both
  paths; so does the tree the generator makes from the mapping of \<open>foo\<close> to these two.
\<close>

theorem reconcile_groups_by_canonical_name:
  "map_of (reconcile t paths []) icon =
     (if filter (\<lambda>p. spec_canonical t p = icon) paths = [] then None
      else Some (map (\<lambda>p. removesuffix ''.svg'' (removeprefix ''arcticons-light/scalable/'' p))
                   (filter (\<lambda>p. spec_canonical t p = icon) paths))) \<and>
   reconcile ex_fs_light
       [''arcticons-light/scalable/a/foo.svg'', ''arcticons-light/scalable/b/bar.svg'']  []
     = [(''foo'', [''a/foo'', ''b/bar''])] \<and>
   reconcile ex_fs_light
       [''arcticons-light/scalable/b/gone.svg'', ''arcticons-light/scalable/b/bar.svg'',
        ''arcticons-light/scalable/c/missing.svg'', ''arcticons-light/scalable/a/foo.svg''] []
     = [(''old'', [''b/gone'']), (''foo'', [''b/bar'', ''a/foo'']), (''missing'', [''c/missing''])] \<and>
   map_sum id
       (\<lambda>w. reconcile (fs w)
              [''arcticons-light/scalable/a/foo.svg'', ''arcticons-light/scalable/b/bar.svg''] [])
       (generate_destination env_ok [''arcticons-light''] ex_entry
          [(''foo'', [''a/foo'', ''b/bar''])] (fresh_world ex_fs))
     = Inr [(''foo'', [''a/foo'', ''b/bar''])]"
proof (intro conjI)
  show "map_of (reconcile t paths []) icon =
     (if filter (\<lambda>p. spec_canonical t p = icon) paths = [] then None
      else Some (map (\<lambda>p. removesuffix ''.svg'' (removeprefix ''arcticons-light/scalable/'' p))
                   (filter (\<lambda>p. spec_canonical t p = icon) paths)))"
    by (simp add: map_of_reconcile)
  show "reconcile ex_fs_light
       [''arcticons-light/scalable/a/foo.svg'', ''arcticons-light/scalable/b/bar.svg'']  []
     = [(''foo'', [''a/foo'', ''b/bar''])]" by code_simp
  show "reconcile ex_fs_light
       [''arcticons-light/scalable/b/gone.svg'', ''arcticons-light/scalable/b/bar.svg'',
        ''arcticons-light/scalable/c/missing.svg'', ''arcticons-light/scalable/a/foo.svg''] []
     = [(''old'', [''b/gone'']), (''foo'', [''b/bar'', ''a/foo'']), (''missing'', [''c/missing''])]"
    by code_simp
  show "map_sum id
       (\<lambda>w. reconcile (fs w)
              [''arcticons-light/scalable/a/foo.svg'', ''arcticons-light/scalable/b/bar.svg''] [])
       (generate_destination env_ok [''arcticons-light''] ex_entry
          [(''foo'', [''a/foo'', ''b/bar''])] (fresh_world ex_fs))
     = Inr [(''foo'', [''a/foo'', ''b/bar''])]" by code_simp
qed






end
